theory Spec2Isabelle
  imports Main "HOL-Library.Word"
begin

unbundle bit_operations_syntax

section \<open>Common data: error codes, datastores\<close>

text \<open>
  Error codes carried by \<^verbatim>\<open>sr_error_info_t\<close>. A function of the source that returns
  \<^verbatim>\<open>sr_error_info_t *\<close> is modelled with a result whose error side holds the code
  (\<^verbatim>\<open>NULL\<close> is the success side). An \<^verbatim>\<open>assert\<close> of the source that does not hold is the
  separate outcome \<open>Assert_failed\<close> (the process aborts), and a read of memory that was
  never written, or beyond the end of a string, is \<open>Undefined_behaviour\<close>.
\<close>

datatype sr_error_t =
    SR_ERR_INVAL_ARG
  | SR_ERR_LY
  | SR_ERR_SYS
  | SR_ERR_NOMEM
  | SR_ERR_NOT_FOUND
  | SR_ERR_EXISTS
  | SR_ERR_INTERNAL
  | SR_ERR_UNSUPPORTED
  | SR_ERR_VALIDATION_FAILED
  | SR_ERR_OPERATION_FAILED
  | SR_ERR_UNAUTHORIZED
  | SR_ERR_LOCKED
  | SR_ERR_TIME_OUT
  | SR_ERR_CALLBACK_FAILED
  | Assert_failed
  | Undefined_behaviour

datatype sr_datastore_t = SR_DS_STARTUP | SR_DS_RUNNING | SR_DS_CANDIDATE | SR_DS_OPERATIONAL

section \<open>common.c: \<^verbatim>\<open>sr_chmodown\<close>\<close>

text \<open>The values of \<^verbatim>\<open>errno.h\<close> on Linux that the source names.\<close>

definition EPERM :: int where "EPERM = 1"
definition ENOENT :: int where "ENOENT = 2"
definition EACCES :: int where "EACCES = 13"

text \<open>
  The classification written twice in \<^verbatim>\<open>sr_chmodown\<close>, after a failed \<^verbatim>\<open>chown\<close> and after a
  failed \<^verbatim>\<open>chmod\<close>:
  \<^verbatim>\<open>if ((errno == EACCES) || (errno = EPERM)) err_code = SR_ERR_UNAUTHORIZED; else err_code = SR_ERR_INTERNAL;\<close>
  The right operand of \<^verbatim>\<open>||\<close> is an assignment: it stores \<^verbatim>\<open>EPERM\<close> into \<^verbatim>\<open>errno\<close> and its
  value is the value stored. The result is the code together with \<^verbatim>\<open>errno\<close> afterwards.
\<close>

definition chmodown_err_code :: "int \<Rightarrow> sr_error_t \<times> int" where
  "chmodown_err_code errno =
     (if errno = EACCES then (SR_ERR_UNAUTHORIZED, errno)
      else (let errno' = EPERM in
            if errno' \<noteq> 0 then (SR_ERR_UNAUTHORIZED, errno') else (SR_ERR_INTERNAL, errno')))"

text \<open>
  The environment of \<^verbatim>\<open>sr_chmodown\<close>: what \<^verbatim>\<open>sr_get_pwd\<close> and \<^verbatim>\<open>sr_get_grp\<close> answer for a
  name (an error code or the id), and what \<^verbatim>\<open>chown\<close> and \<^verbatim>\<open>chmod\<close> answer (\<open>None\<close> is
  success, \<open>Some e\<close> is the return value -1 with \<^verbatim>\<open>errno\<close> set to \<open>e\<close>).
\<close>

record chmodown_env =
  get_pwd :: "string \<Rightarrow> sr_error_t + 32 word"
  get_grp :: "string \<Rightarrow> sr_error_t + 32 word"
  chown_res :: "string \<Rightarrow> 32 word \<Rightarrow> 32 word \<Rightarrow> int option"
  chmod_res :: "string \<Rightarrow> 32 word \<Rightarrow> int option"

text \<open>
  \<^verbatim>\<open>sr_chmodown(path, owner, group, perm)\<close>. \<open>owner\<close> and \<open>group\<close> are \<open>None\<close> for
  \<^verbatim>\<open>NULL\<close>; \<open>perm\<close> is a \<^verbatim>\<open>mode_t\<close>, and \<^verbatim>\<open>(int)perm != -1\<close> is \<open>perm \<noteq> - 1\<close> on 32 bits; the octal
  \<^verbatim>\<open>00777\<close> is 511 and \<^verbatim>\<open>00111\<close> is 73.
  The result is \<open>None\<close> for \<^verbatim>\<open>NULL\<close> (success) or the code of the error.
\<close>

definition sr_chmodown ::
  "chmodown_env \<Rightarrow> string \<Rightarrow> string option \<Rightarrow> string option \<Rightarrow> 32 word \<Rightarrow> sr_error_t option" where
  "sr_chmodown env path owner grp perm =
     (if perm \<noteq> - 1 \<and> perm > 511 then Some SR_ERR_INVAL_ARG
      else if perm \<noteq> - 1 \<and> perm AND 73 \<noteq> 0 then Some SR_ERR_INVAL_ARG
      else
        case (case owner of None \<Rightarrow> Inr (- 1) | Some u \<Rightarrow> get_pwd env u) of
          Inl e \<Rightarrow> Some e
        | Inr uid \<Rightarrow>
            (case (case grp of None \<Rightarrow> Inr (- 1) | Some g \<Rightarrow> get_grp env g) of
               Inl e \<Rightarrow> Some e
             | Inr gid \<Rightarrow>
                 (case chown_res env path uid gid of
                    Some errno \<Rightarrow> Some (fst (chmodown_err_code errno))
                  | None \<Rightarrow>
                      (if perm \<noteq> - 1 then
                         (case chmod_res env path perm of
                            Some errno \<Rightarrow> Some (fst (chmodown_err_code errno))
                          | None \<Rightarrow> None)
                       else None))))"


section \<open>shm.h: the module descriptors of Main SHM\<close>

text \<open>
  The structures of \<^verbatim>\<open>shm.h\<close> that the functions below read. An \<^verbatim>\<open>off_t\<close> that points to a
  string or an array of Ext SHM is modelled by the string or the list it points to (the
  \<^verbatim>\<open>uint16_t\<close> count next to it is the length of the list). Main SHM is the list of its
  descriptors in the order of their addresses, and a pointer \<^verbatim>\<open>sr_mod_t *\<close> is the position
  of the descriptor in that list: one descriptor lies at a lower address than another
  exactly if its position is smaller.
\<close>

record lys_module =
  ly_name :: string
  ly_revision :: string
  ly_implemented :: bool

datatype sr_mod_dep_type_t = SR_DEP_REF | SR_DEP_INSTID

record sr_mod_data_dep_s =
  dep_type :: sr_mod_dep_type_t
  dep_module :: string
  dep_xpath :: string

datatype sr_mod_oper_sub_type_t =
  SR_OPER_SUB_NONE | SR_OPER_SUB_STATE | SR_OPER_SUB_CONFIG | SR_OPER_SUB_MIXED

text \<open>
  \<^verbatim>\<open>opts\<close> of an operational subscription is read for one flag only,
  \<^verbatim>\<open>SR_SUBSCR_OPER_MERGE\<close>; the field holds whether that bit is set.
\<close>

record sr_mod_oper_sub_s =
  osub_xpath :: string
  osub_sub_type :: sr_mod_oper_sub_type_t
  osub_opts_oper_merge :: bool
  osub_evpipe_num :: "32 word"
  osub_cid :: "32 word"

record sr_mod_notif_sub_s =
  nsub_sub_id :: "32 word"
  nsub_evpipe_num :: "32 word"
  nsub_suspended :: bool
  nsub_cid :: "32 word"

definition SR_MOD_REPLAY_SUPPORT :: "8 word" where "SR_MOD_REPLAY_SUPPORT = 1"

record sr_mod_s =
  shm_ver :: "32 word"
  shm_name :: string
  shm_flags :: "8 word"
  shm_data_deps :: "sr_mod_data_dep_s list"
  shm_inv_data_deps :: "string list"
  shm_oper_subs :: "sr_mod_oper_sub_s list"
  shm_notif_subs :: "sr_mod_notif_sub_s list"

text \<open>
  Modelled from the spec: \<^verbatim>\<open>sr_shmmain_find_module\<close> is declared in \<^verbatim>\<open>shm.h\<close> (``Find a specific
  main SHM module ... NULL if not found'') and defined in a file that is not among the
  sources; the spec describes it as a scan of the Main SHM descriptors by name.
\<close>

fun sr_shmmain_find_module :: "sr_mod_s list \<Rightarrow> string \<Rightarrow> nat option" where
  "sr_shmmain_find_module [] name = None"
| "sr_shmmain_find_module (m # ms) name =
     (if shm_name m = name then Some 0 else map_option Suc (sr_shmmain_find_module ms name))"

text \<open>
  The part of the connection that the module-info functions read: Main SHM, the modules of
  the libyang context in the order of \<^verbatim>\<open>ly_ctx_get_module_iter\<close>, and whether \<^verbatim>\<open>sr_realloc\<close>
  succeeds for a number of array elements.
\<close>

record sr_conn_ctx =
  conn_main_shm :: "sr_mod_s list"
  conn_ly_ctx :: "lys_module list"
  conn_realloc_ok :: "nat \<Rightarrow> bool"

text \<open>libyang's \<^verbatim>\<open>ly_ctx_get_module_implemented\<close>: the implemented module of that name.\<close>

definition ly_ctx_get_module_implemented :: "lys_module list \<Rightarrow> string \<Rightarrow> lys_module option" where
  "ly_ctx_get_module_implemented ctx name = find (\<lambda>m. ly_name m = name \<and> ly_implemented m) ctx"

section \<open>modinfo.c: the module-info set\<close>

text \<open>
  Modelled from the spec: the state bits of a module-info entry are defined in \<^verbatim>\<open>common.h\<close>,
  which is not among the sources. The spec names the bits and orders the three kinds
  \<open>REQ > INV_DEP > DEP\<close>; the source compares them as numbers and masks the kind with
  \<^verbatim>\<open>MOD_INFO_TYPE_MASK\<close>.
\<close>

definition MOD_INFO_DEP :: nat where "MOD_INFO_DEP = 1"
definition MOD_INFO_INV_DEP :: nat where "MOD_INFO_INV_DEP = 2"
definition MOD_INFO_REQ :: nat where "MOD_INFO_REQ = 4"
definition MOD_INFO_TYPE_MASK :: nat where "MOD_INFO_TYPE_MASK = 7"
definition MOD_INFO_DATA :: nat where "MOD_INFO_DATA = 128"
definition MOD_INFO_CHANGED :: nat where "MOD_INFO_CHANGED = 256"

record sr_mod_info_mod_s =
  mi_shm_mod :: nat
  mi_state :: nat
  mi_ly_mod :: lys_module

subsection \<open>\<^verbatim>\<open>sr_modinfo_add_mod\<close>\<close>

text \<open>
  The search loop at the head of \<^verbatim>\<open>sr_modinfo_add_mod\<close>,
  \<^verbatim>\<open>for (i = 0; i < mod_info->mod_count; ++i) if (mod_info->mods[i].ly_mod == ly_mod) ...\<close>,
  leaves at the first entry of the module, by \<^verbatim>\<open>break\<close> or by \<^verbatim>\<open>return\<close>. The counter is a
  \<^verbatim>\<open>uint16_t\<close> and \<^verbatim>\<open>mod_count\<close> a \<^verbatim>\<open>uint32_t\<close>: with 65536 entries or more the condition
  \<^verbatim>\<open>i < mod_count\<close> never fails, the counter wraps after 65535, and the loop ends only if
  the module is among the first 65536 entries.
\<close>

datatype mod_search = Mod_found nat | Mod_absent | Mod_search_loops

fun first_ly_mod :: "lys_module \<Rightarrow> sr_mod_info_mod_s list \<Rightarrow> nat option" where
  "first_ly_mod ly_mod [] = None"
| "first_ly_mod ly_mod (m # ms) =
     (if mi_ly_mod m = ly_mod then Some 0 else map_option Suc (first_ly_mod ly_mod ms))"

definition mod_search :: "lys_module \<Rightarrow> sr_mod_info_mod_s list \<Rightarrow> mod_search" where
  "mod_search ly_mod mods =
     (case first_ly_mod ly_mod (take 65536 mods) of
        Some i \<Rightarrow> Mod_found i
      | None \<Rightarrow> if length mods < 65536 then Mod_absent else Mod_search_loops)"

text \<open>
  Running a step on the result of an earlier one: \<open>None\<close> (the call does not return) and an
  error end the sequence, as the \<^verbatim>\<open>return err_info\<close> after each call does.
\<close>

definition and_then ::
  "(sr_error_t + 'a) option \<Rightarrow> ('a \<Rightarrow> (sr_error_t + 'b) option) \<Rightarrow> (sr_error_t + 'b) option" where
  "and_then r f = (case r of None \<Rightarrow> None | Some (Inl e) \<Rightarrow> Some (Inl e) | Some (Inr x) \<Rightarrow> f x)"

text \<open>
  The head of \<^verbatim>\<open>sr_modinfo_add_mod(ly_mod, mod_typ, mod_req_deps, mod_info)\<close>, down to the
  entry being in the array: the two assertions, the search (an entry of the module with an
  equal or stronger kind ends the call; a weaker one is overwritten with the new kind, its
  whole previous state remembered in \<^verbatim>\<open>prev_mod_type\<close>), the lookup of the descriptor in Main
  SHM, and the new entry when \<^verbatim>\<open>prev_mod_type < MOD_INFO_DEP\<close>. The outcome is that the call
  has returned, that the search loop does not end, or \<^verbatim>\<open>prev_mod_type\<close>, \<^verbatim>\<open>cur_i\<close>,
  \<^verbatim>\<open>shm_mod\<close> and the array.

  Where an entry of the module exists with no kind bit at all, the source grows the array
  by one element and fills the found position, not the new one: the new element stays
  unwritten, which is \<open>Undefined_behaviour\<close> here.
\<close>

datatype add_mod_entry =
    Entry_loops
  | Entry_return "sr_error_t + sr_mod_info_mod_s list"
  | Entry_present nat nat nat "sr_mod_info_mod_s list"

definition add_mod_entry ::
  "sr_conn_ctx \<Rightarrow> lys_module \<Rightarrow> nat \<Rightarrow> nat \<Rightarrow> sr_mod_info_mod_s list \<Rightarrow> add_mod_entry" where
  "add_mod_entry conn ly_mod mod_typ mod_req_deps mods =
     (if \<not> (mod_typ = MOD_INFO_REQ \<or> mod_typ = MOD_INFO_DEP \<or> mod_typ = MOD_INFO_INV_DEP)
      then Entry_return (Inl Assert_failed)
      else if \<not> (mod_req_deps = 0 \<or> mod_req_deps = MOD_INFO_DEP
                   \<or> mod_req_deps = (MOD_INFO_DEP OR MOD_INFO_INV_DEP))
      then Entry_return (Inl Assert_failed)
      else
        case mod_search ly_mod mods of
          Mod_search_loops \<Rightarrow> Entry_loops
        | found \<Rightarrow>
            (case (case found of
                     Mod_found i \<Rightarrow>
                       if mi_state (mods ! i) AND MOD_INFO_TYPE_MASK < mod_typ
                       then Some (mi_state (mods ! i), i, mods[i := (mods ! i)\<lparr>mi_state := mod_typ\<rparr>])
                       else None
                   | _ \<Rightarrow> Some (0, length mods, mods)) of
               None \<Rightarrow> Entry_return (Inr mods)
             | Some (prev_mod_type, cur_i, mods1) \<Rightarrow>
                 (case sr_shmmain_find_module (conn_main_shm conn) (ly_name ly_mod) of
                    None \<Rightarrow> Entry_return (Inl SR_ERR_INTERNAL)
                  | Some shm_mod \<Rightarrow>
                      if prev_mod_type < MOD_INFO_DEP then
                        if \<not> conn_realloc_ok conn (length mods1 + 1) then Entry_return (Inl SR_ERR_NOMEM)
                        else if cur_i < length mods1 then Entry_return (Inl Undefined_behaviour)
                        else Entry_present prev_mod_type cur_i shm_mod
                               (mods1 @ [\<lparr>mi_shm_mod = shm_mod, mi_state = mod_typ, mi_ly_mod = ly_mod\<rparr>])
                      else Entry_present prev_mod_type cur_i shm_mod mods1)))"

text \<open>
  The two loops of \<^verbatim>\<open>sr_modinfo_add_mod\<close> over the data dependencies and over the inverse
  data dependencies of the descriptor. Each finds the libyang module of the dependency
  and calls \<^verbatim>\<open>sr_modinfo_add_mod\<close> on it, on the array as the earlier calls left it; that
  call is the first argument here. A dependency of type \<^verbatim>\<open>SR_DEP_INSTID\<close> is skipped.
\<close>

fun add_data_deps ::
  "(lys_module \<Rightarrow> sr_mod_info_mod_s list \<Rightarrow> (sr_error_t + sr_mod_info_mod_s list) option)
    \<Rightarrow> lys_module list \<Rightarrow> sr_mod_data_dep_s list \<Rightarrow> sr_mod_info_mod_s list
    \<Rightarrow> (sr_error_t + sr_mod_info_mod_s list) option" where
  "add_data_deps add_dep ctx [] mods = Some (Inr mods)"
| "add_data_deps add_dep ctx (dep # deps) mods =
     (if dep_type dep = SR_DEP_INSTID then add_data_deps add_dep ctx deps mods
      else
        case ly_ctx_get_module_implemented ctx (dep_module dep) of
          None \<Rightarrow> Some (Inl SR_ERR_INTERNAL)
        | Some ly_mod \<Rightarrow> and_then (add_dep ly_mod mods) (add_data_deps add_dep ctx deps))"

fun add_inv_data_deps ::
  "(lys_module \<Rightarrow> sr_mod_info_mod_s list \<Rightarrow> (sr_error_t + sr_mod_info_mod_s list) option)
    \<Rightarrow> lys_module list \<Rightarrow> string list \<Rightarrow> sr_mod_info_mod_s list
    \<Rightarrow> (sr_error_t + sr_mod_info_mod_s list) option" where
  "add_inv_data_deps add_dep ctx [] mods = Some (Inr mods)"
| "add_inv_data_deps add_dep ctx (inv_dep # inv_deps) mods =
     (case ly_ctx_get_module_implemented ctx inv_dep of
        None \<Rightarrow> Some (Inl SR_ERR_INTERNAL)
      | Some ly_mod \<Rightarrow> and_then (add_dep ly_mod mods) (add_inv_data_deps add_dep ctx inv_deps))"

text \<open>
  \<^verbatim>\<open>sr_modinfo_add_mod\<close>. The function calls itself from both loops; the first argument
  bounds the depth of these calls, and \<open>None\<close> says that the bound was reached or that the
  search loop does not end. The result is the array \<^verbatim>\<open>mod_info->mods\<close> after the call, or
  the error.
\<close>

fun sr_modinfo_add_mod ::
    "nat \<Rightarrow> sr_conn_ctx \<Rightarrow> lys_module \<Rightarrow> nat \<Rightarrow> nat \<Rightarrow> sr_mod_info_mod_s list
      \<Rightarrow> (sr_error_t + sr_mod_info_mod_s list) option" where
  "sr_modinfo_add_mod 0 conn ly_mod mod_typ mod_req_deps mods = None"
| "sr_modinfo_add_mod (Suc fuel) conn ly_mod mod_typ mod_req_deps mods =
     (case add_mod_entry conn ly_mod mod_typ mod_req_deps mods of
        Entry_loops \<Rightarrow> None
      | Entry_return r \<Rightarrow> Some r
      | Entry_present prev_mod_type cur_i shm_mod mods2 \<Rightarrow>
          if mod_req_deps AND MOD_INFO_DEP = 0 \<or> mi_state (mods2 ! cur_i) < MOD_INFO_INV_DEP
          then Some (Inr mods2)
          else
            and_then
              (if prev_mod_type < MOD_INFO_INV_DEP
               then add_data_deps
                      (\<lambda>dep_mod. sr_modinfo_add_mod fuel conn dep_mod MOD_INFO_DEP mod_req_deps)
                      (conn_ly_ctx conn) (shm_data_deps (conn_main_shm conn ! shm_mod)) mods2
               else Some (Inr mods2))
              (\<lambda>mods3.
                 if mod_req_deps AND MOD_INFO_INV_DEP = 0 \<or> mi_state (mods3 ! cur_i) < MOD_INFO_REQ
                 then Some (Inr mods3)
                 else if prev_mod_type < MOD_INFO_REQ
                 then add_inv_data_deps
                        (\<lambda>dep_mod. sr_modinfo_add_mod fuel conn dep_mod MOD_INFO_INV_DEP mod_req_deps)
                        (conn_ly_ctx conn) (shm_inv_data_deps (conn_main_shm conn ! shm_mod)) mods3
                 else Some (Inr mods3)))"

subsection \<open>Data trees and the module-info structure\<close>

text \<open>
  The operations of \<^verbatim>\<open>enum edit_op\<close> (\<^verbatim>\<open>edit_diff.h\<close>), in the order of the source:
  \<^verbatim>\<open>EDIT_FINISH\<close> is -1 and \<^verbatim>\<open>EDIT_CONTINUE\<close> is 0.
\<close>

datatype edit_op =
    EDIT_FINISH | EDIT_CONTINUE | EDIT_MOVE | EDIT_AUTO_REMOVE
  | EDIT_ETHER | EDIT_PURGE
  | EDIT_NONE | EDIT_MERGE | EDIT_REPLACE | EDIT_CREATE | EDIT_DELETE | EDIT_REMOVE

text \<open>
  A node of a libyang data tree, as far as the functions below look at it: the module that
  owns it, its name, the operation stored in the node itself (\<^verbatim>\<open>EDIT_CONTINUE\<close>, which is 0,
  when it stores none) and its children. A tree pointer \<^verbatim>\<open>struct lyd_node *\<close> is the list of
  the top-level siblings, and \<^verbatim>\<open>NULL\<close> is the empty list.
\<close>

datatype lyd_node =
  Lyd_node (nd_module: string) (nd_name: string) (nd_oper: edit_op) (nd_child: "lyd_node list")

record sr_mod_info_s =
  mi_ds :: sr_datastore_t
  mi_ds2 :: sr_datastore_t
  mi_diff :: "lyd_node list"
  mi_data :: "lyd_node list"
  mi_data_cached :: bool
  mi_mods :: "sr_mod_info_mod_s list"

subsection \<open>\<^verbatim>\<open>sr_perm_check\<close> and \<^verbatim>\<open>sr_modinfo_perm_check\<close>\<close>

datatype access_mode = R_OK | W_OK

text \<open>
  The file system as the permission check sees it: the compiled-in \<^verbatim>\<open>SR_STARTUP_PATH\<close>, the
  repository path of \<^verbatim>\<open>sr_get_repo_path()\<close>, whether \<^verbatim>\<open>asprintf\<close> can allocate a string, and
  the answer of \<^verbatim>\<open>eaccess\<close> (\<open>None\<close> is 0, \<open>Some e\<close> is -1 with \<^verbatim>\<open>errno\<close> \<open>e\<close>).
\<close>

record perm_env =
  env_startup_path :: string
  env_repo_path :: string
  env_asprintf_ok :: "string \<Rightarrow> bool"
  env_eaccess :: "string \<Rightarrow> access_mode \<Rightarrow> int option"

definition sr_path_startup_file :: "perm_env \<Rightarrow> string \<Rightarrow> sr_error_t + string" where
  "sr_path_startup_file env mod_name =
     (let path = (if env_startup_path env \<noteq> []
                  then env_startup_path env @ ''/'' @ mod_name @ ''.startup''
                  else env_repo_path env @ ''/data/'' @ mod_name @ ''.startup'')
      in if env_asprintf_ok env path then Inr path else Inl SR_ERR_NOMEM)"

text \<open>
  \<^verbatim>\<open>sr_perm_check(mod_name, wr, has_access)\<close>. The third argument says whether the pointer
  \<^verbatim>\<open>has_access\<close> is given; the result is the list of the \<^verbatim>\<open>eaccess\<close> calls made, with the
  error or the value stored in \<^verbatim>\<open>*has_access\<close> (\<open>True\<close> where the pointer is \<^verbatim>\<open>NULL\<close> and
  the check passed). \<^verbatim>\<open>SR_ERRINFO_SYSERRNO\<close> makes an error of code \<^verbatim>\<open>SR_ERR_SYS\<close>.
\<close>

definition sr_perm_check ::
  "perm_env \<Rightarrow> string \<Rightarrow> bool \<Rightarrow> bool \<Rightarrow> (string \<times> access_mode) list \<times> (sr_error_t + bool)" where
  "sr_perm_check env mod_name wr has_access =
     (case sr_path_startup_file env mod_name of
        Inl e \<Rightarrow> ([], Inl e)
      | Inr path \<Rightarrow>
          ([(path, if wr then W_OK else R_OK)],
           case env_eaccess env path (if wr then W_OK else R_OK) of
             Some errno \<Rightarrow>
               if errno = EACCES then
                 (if has_access then Inr False else Inl SR_ERR_UNAUTHORIZED)
               else Inl SR_ERR_SYS
           | None \<Rightarrow> Inr True))"

text \<open>
  The loop of \<^verbatim>\<open>sr_modinfo_perm_check\<close> on the index \<open>i\<close> and the array: an entry without
  access is removed in non-strict mode by moving the entries after it one place down, and
  the index stays.
\<close>

function perm_check_loop ::
  "perm_env \<Rightarrow> bool \<Rightarrow> bool \<Rightarrow> nat \<Rightarrow> sr_mod_info_mod_s list
    \<Rightarrow> (string \<times> access_mode) list \<times> (sr_error_t + sr_mod_info_mod_s list)" where
  "perm_check_loop env wr strict i mods =
     (if i < length mods then
        if mi_state (mods ! i) AND (MOD_INFO_REQ OR MOD_INFO_CHANGED) \<noteq> 0 then
          case sr_perm_check env (ly_name (mi_ly_mod (mods ! i))) wr (\<not> strict) of
            (calls, Inl e) \<Rightarrow> (calls, Inl e)
          | (calls, Inr has_access) \<Rightarrow>
              (case (if \<not> strict \<and> \<not> has_access
                     then perm_check_loop env wr strict i (take i mods @ drop (Suc i) mods)
                     else perm_check_loop env wr strict (Suc i) mods) of
                 (calls', r) \<Rightarrow> (calls @ calls', r))
        else perm_check_loop env wr strict (Suc i) mods
      else ([], Inr mods))"
  by pat_completeness auto
termination
  by (relation "measure (\<lambda>(env, wr, strict, i, mods). length mods - i)") auto

declare perm_check_loop.simps [simp del]

definition sr_modinfo_perm_check ::
  "perm_env \<Rightarrow> sr_mod_info_s \<Rightarrow> bool \<Rightarrow> bool
    \<Rightarrow> (string \<times> access_mode) list \<times> (sr_error_t + sr_mod_info_s)" where
  "sr_modinfo_perm_check env mod_info wr strict =
     (if \<not> (mi_data mod_info = [] \<or> strict) then ([], Inl Assert_failed)
      else
        case perm_check_loop env wr strict 0 (mi_mods mod_info) of
          (calls, Inl e) \<Rightarrow> (calls, Inl e)
        | (calls, Inr mods) \<Rightarrow> (calls, Inr (mod_info\<lparr>mi_mods := mods\<rparr>)))"

subsection \<open>\<^verbatim>\<open>sr_modinfo_qsort_cmp\<close> and \<^verbatim>\<open>sr_modinfo_add_modules\<close>\<close>

definition sr_modinfo_qsort_cmp :: "sr_mod_info_mod_s \<Rightarrow> sr_mod_info_mod_s \<Rightarrow> int" where
  "sr_modinfo_qsort_cmp mod1 mod2 =
     (if mi_shm_mod mod1 > mi_shm_mod mod2 then 1
      else if mi_shm_mod mod1 < mi_shm_mod mod2 then - 1
      else 0)"

text \<open>
  \<^verbatim>\<open>qsort\<close> of the C library with a comparison function. The C standard fixes its result up
  to the order of elements that compare equal; the model sorts by insertion, which keeps
  such elements in their order.
\<close>

fun qsort_insert :: "('a \<Rightarrow> 'a \<Rightarrow> int) \<Rightarrow> 'a \<Rightarrow> 'a list \<Rightarrow> 'a list" where
  "qsort_insert cmp x [] = [x]"
| "qsort_insert cmp x (y # ys) = (if cmp x y \<le> 0 then x # y # ys else y # qsort_insert cmp x ys)"

definition qsort :: "('a \<Rightarrow> 'a \<Rightarrow> int) \<Rightarrow> 'a list \<Rightarrow> 'a list" where
  "qsort cmp xs = foldr (qsort_insert cmp) xs []"

text \<open>
  The options \<^verbatim>\<open>mi_opts\<close> of \<^verbatim>\<open>sr_modinfo_add_modules\<close>: the \<^verbatim>\<open>SR_MI_*\<close> bits are defined in
  \<^verbatim>\<open>common.h\<close>, which is not among the sources, and the function only tests single bits, so
  the bit set is a record with one boolean for each bit the function names.
\<close>

record sr_mi_opts =
  SR_MI_MOD_DEPS :: bool
  SR_MI_LOCK_UPGRADEABLE :: bool
  SR_MI_DATA_CACHE :: bool
  SR_MI_DATA_NO :: bool
  SR_MI_PERM_NO :: bool
  SR_MI_PERM_READ :: bool
  SR_MI_PERM_WRITE :: bool
  SR_MI_PERM_STRICT :: bool

text \<open>The name of the internal module, \<^verbatim>\<open>SR_YANG_MOD\<close> of \<^verbatim>\<open>common.h\<close>.\<close>

definition SR_YANG_MOD :: string where "SR_YANG_MOD = ''sysrepo''"

text \<open>
  The loop of \<^verbatim>\<open>sr_modinfo_add_modules\<close> over the given modules (\<^verbatim>\<open>mod_set->objs\<close>), and the
  loop over all modules of the context, which skips a module that is not implemented and
  the internal module.
\<close>

fun add_mod_set ::
  "nat \<Rightarrow> sr_conn_ctx \<Rightarrow> nat \<Rightarrow> nat \<Rightarrow> lys_module list \<Rightarrow> sr_mod_info_mod_s list
    \<Rightarrow> (sr_error_t + sr_mod_info_mod_s list) option" where
  "add_mod_set fuel conn mod_typ mod_deps [] mods = Some (Inr mods)"
| "add_mod_set fuel conn mod_typ mod_deps (m # ms) mods =
     and_then (sr_modinfo_add_mod fuel conn m mod_typ mod_deps mods)
       (add_mod_set fuel conn mod_typ mod_deps ms)"

fun add_all_mods ::
  "nat \<Rightarrow> sr_conn_ctx \<Rightarrow> nat \<Rightarrow> nat \<Rightarrow> lys_module list \<Rightarrow> sr_mod_info_mod_s list
    \<Rightarrow> (sr_error_t + sr_mod_info_mod_s list) option" where
  "add_all_mods fuel conn mod_typ mod_deps [] mods = Some (Inr mods)"
| "add_all_mods fuel conn mod_typ mod_deps (m # ms) mods =
     (if \<not> ly_implemented m \<or> ly_name m = SR_YANG_MOD
      then add_all_mods fuel conn mod_typ mod_deps ms mods
      else and_then (sr_modinfo_add_mod fuel conn m mod_typ mod_deps mods)
             (add_all_mods fuel conn mod_typ mod_deps ms))"

text \<open>
  \<^verbatim>\<open>sr_modinfo_add_modules\<close> from its start through the call of \<^verbatim>\<open>qsort\<close>: the modules are
  added with their dependencies, the permissions are checked, and the array is sorted. The
  function goes on to lock the modules and to load their data. When no entry was added
  (\<^verbatim>\<open>prev_mod_count == mod_info->mod_count\<close>) the function returns at once, before the
  permission check and the sorting.
\<close>

definition sr_modinfo_add_modules_resolve ::
  "nat \<Rightarrow> sr_conn_ctx \<Rightarrow> perm_env \<Rightarrow> sr_mod_info_s \<Rightarrow> lys_module list \<Rightarrow> nat \<Rightarrow> sr_mi_opts
    \<Rightarrow> (sr_error_t + sr_mod_info_s) option" where
  "sr_modinfo_add_modules_resolve fuel conn env mod_info mod_set mod_deps mi_opts =
     (if \<not> (SR_MI_PERM_NO mi_opts \<or> SR_MI_PERM_READ mi_opts \<or> SR_MI_PERM_WRITE mi_opts)
      then Some (Inl Assert_failed)
      else
        let mod_typ = (if SR_MI_MOD_DEPS mi_opts then MOD_INFO_DEP else MOD_INFO_REQ);
            prev_mod_count = length (mi_mods mod_info)
        in
        and_then
          (if mod_set \<noteq> []
           then add_mod_set fuel conn mod_typ mod_deps mod_set (mi_mods mod_info)
           else add_all_mods fuel conn mod_typ 0 (conn_ly_ctx conn) (mi_mods mod_info))
          (\<lambda>mods.
             if prev_mod_count = length mods then Some (Inr (mod_info\<lparr>mi_mods := mods\<rparr>))
             else
               and_then
                 (if \<not> SR_MI_PERM_NO mi_opts
                  then Some (snd (sr_modinfo_perm_check env (mod_info\<lparr>mi_mods := mods\<rparr>)
                                    (SR_MI_PERM_WRITE mi_opts) (SR_MI_PERM_STRICT mi_opts)))
                  else Some (Inr (mod_info\<lparr>mi_mods := mods\<rparr>)))
                 (\<lambda>mod_info'.
                    Some (Inr (mod_info'\<lparr>mi_mods := qsort sr_modinfo_qsort_cmp (mi_mods mod_info')\<rparr>)))))"

subsection \<open>\<^verbatim>\<open>sr_modinfo_data_load\<close>: the states of the entries\<close>

text \<open>
  The loop of \<^verbatim>\<open>sr_modinfo_data_load\<close> over the entries, as far as it changes their states:
  an entry with \<^verbatim>\<open>MOD_INFO_DATA\<close> is passed over (its data were already loaded); for another
  one \<^verbatim>\<open>sr_modinfo_module_data_load\<close> is called, whose result is given by \<open>load\<close> (\<open>None\<close> is
  success), and then the entry gets \<^verbatim>\<open>MOD_INFO_DATA\<close>; the first error ends the loop. The
  result is \<^verbatim>\<open>err_info\<close> and the array.
\<close>

fun sr_modinfo_data_load_mods ::
  "(sr_mod_info_mod_s \<Rightarrow> sr_error_t option) \<Rightarrow> sr_mod_info_mod_s list
    \<Rightarrow> sr_error_t option \<times> sr_mod_info_mod_s list" where
  "sr_modinfo_data_load_mods load [] = (None, [])"
| "sr_modinfo_data_load_mods load (m # ms) =
     (if mi_state m AND MOD_INFO_DATA \<noteq> 0 then
        (case sr_modinfo_data_load_mods load ms of (r, ms') \<Rightarrow> (r, m # ms'))
      else
        case load m of
          Some e \<Rightarrow> (Some e, m # ms)
        | None \<Rightarrow>
            (case sr_modinfo_data_load_mods load ms of
               (r, ms') \<Rightarrow> (r, m\<lparr>mi_state := mi_state m OR MOD_INFO_DATA\<rparr> # ms')))"

section \<open>Notions used to state the properties of the module-info set\<close>

text \<open>The kind of an entry: its state under \<^verbatim>\<open>MOD_INFO_TYPE_MASK\<close>.\<close>

definition mod_kind :: "sr_mod_info_mod_s \<Rightarrow> nat" where
  "mod_kind m = mi_state m AND MOD_INFO_TYPE_MASK"

text \<open>
  The implemented modules of the libyang context. libyang keeps at most one implemented
  module of a name in a context, which the theorems below assume where they need it as
  \<open>inj_on ly_name (impl_mods conn)\<close>.
\<close>

definition impl_mods :: "sr_conn_ctx \<Rightarrow> lys_module set" where
  "impl_mods conn = set (filter ly_implemented (conn_ly_ctx conn))"

text \<open>
  An array of entries is consistent with the connection when no module has two entries,
  every module is an implemented module of the context, and \<^verbatim>\<open>shm_mod\<close> of every entry is the
  descriptor that \<^verbatim>\<open>sr_shmmain_find_module\<close> finds for the name of the module. The empty
  array, with which every module-info set starts, is consistent.
\<close>

definition modinfo_consistent :: "sr_conn_ctx \<Rightarrow> sr_mod_info_mod_s list \<Rightarrow> bool" where
  "modinfo_consistent conn mods =
     (distinct (map mi_ly_mod mods) \<and>
      (\<forall>e \<in> set mods. mi_ly_mod e \<in> impl_mods conn \<and>
         sr_shmmain_find_module (conn_main_shm conn) (ly_name (mi_ly_mod e)) = Some (mi_shm_mod e)))"

text \<open>
  \<open>mods_grow t mods mods'\<close>: every entry of \<open>mods\<close> is at the same position of \<open>mods'\<close> with
  the same module and descriptor and a kind that is not weaker, and an entry whose kind is
  at least \<open>t\<close> is unchanged.
\<close>

definition mods_grow :: "nat \<Rightarrow> sr_mod_info_mod_s list \<Rightarrow> sr_mod_info_mod_s list \<Rightarrow> bool" where
  "mods_grow t mods mods' =
     (length mods \<le> length mods' \<and>
      (\<forall>j < length mods.
         mi_ly_mod (mods' ! j) = mi_ly_mod (mods ! j) \<and>
         mi_shm_mod (mods' ! j) = mi_shm_mod (mods ! j) \<and>
         mod_kind (mods ! j) \<le> mod_kind (mods' ! j) \<and>
         (t \<le> mod_kind (mods ! j) \<longrightarrow> mods' ! j = mods ! j)))"

text \<open>
  \<open>has_mod k name mods\<close>: the array has an entry of the module called \<open>name\<close> whose kind
  is at least \<open>k\<close>. \<open>changed_to s mods mods'\<close>: every entry of \<open>mods'\<close> is the entry of
  \<open>mods\<close> at that position or has the state \<open>s\<close>.
\<close>

definition has_mod :: "nat \<Rightarrow> string \<Rightarrow> sr_mod_info_mod_s list \<Rightarrow> bool" where
  "has_mod k name mods = (\<exists>e \<in> set mods. ly_name (mi_ly_mod e) = name \<and> k \<le> mod_kind e)"

definition changed_to :: "nat \<Rightarrow> sr_mod_info_mod_s list \<Rightarrow> sr_mod_info_mod_s list \<Rightarrow> bool" where
  "changed_to s mods mods' =
     (length mods \<le> length mods' \<and>
      (\<forall>j < length mods'. (j < length mods \<and> mods' ! j = mods ! j) \<or> mi_state (mods' ! j) = s))"

text \<open>
  The value that \<^verbatim>\<open>sr_modinfo_add_mod\<close> keeps in \<^verbatim>\<open>prev_mod_type\<close> when it adds or upgrades
  the module: the whole previous state of its entry, 0 without an entry.
\<close>

definition prev_mod_type_of :: "lys_module \<Rightarrow> sr_mod_info_mod_s list \<Rightarrow> nat" where
  "prev_mod_type_of ly_mod mods =
     (case mod_search ly_mod mods of Mod_found i \<Rightarrow> mi_state (mods ! i) | _ \<Rightarrow> 0)"

text \<open>The connection without the dependencies of type \<^verbatim>\<open>SR_DEP_INSTID\<close>.\<close>

definition drop_instid :: "sr_conn_ctx \<Rightarrow> sr_conn_ctx" where
  "drop_instid conn =
     conn\<lparr>conn_main_shm :=
       map (\<lambda>d. d\<lparr>shm_data_deps := filter (\<lambda>dep. dep_type dep \<noteq> SR_DEP_INSTID) (shm_data_deps d)\<rparr>)
         (conn_main_shm conn)\<rparr>"

text \<open>
  The permission check: the entries it checks, the file and the mode it passes to
  \<^verbatim>\<open>eaccess\<close> for an entry, the entries that are denied (\<^verbatim>\<open>eaccess\<close> fails with \<^verbatim>\<open>EACCES\<close>), and
  the entries that the loop keeps.
\<close>

definition perm_checked :: "sr_mod_info_mod_s \<Rightarrow> bool" where
  "perm_checked m = (mi_state m AND (MOD_INFO_REQ OR MOD_INFO_CHANGED) \<noteq> 0)"

definition startup_file :: "perm_env \<Rightarrow> sr_mod_info_mod_s \<Rightarrow> string" where
  "startup_file env m =
     (if env_startup_path env \<noteq> []
      then env_startup_path env @ ''/'' @ ly_name (mi_ly_mod m) @ ''.startup''
      else env_repo_path env @ ''/data/'' @ ly_name (mi_ly_mod m) @ ''.startup'')"

definition access_of :: "bool \<Rightarrow> access_mode" where
  "access_of wr = (if wr then W_OK else R_OK)"

definition perm_call :: "perm_env \<Rightarrow> bool \<Rightarrow> sr_mod_info_mod_s \<Rightarrow> string \<times> access_mode" where
  "perm_call env wr m = (startup_file env m, access_of wr)"

definition perm_denied :: "perm_env \<Rightarrow> bool \<Rightarrow> sr_mod_info_mod_s \<Rightarrow> bool" where
  "perm_denied env wr m =
     (perm_checked m \<and> env_eaccess env (startup_file env m) (access_of wr) = Some EACCES)"

definition perm_keep :: "perm_env \<Rightarrow> bool \<Rightarrow> bool \<Rightarrow> sr_mod_info_mod_s \<Rightarrow> bool" where
  "perm_keep env wr strict m =
     (\<not> (mi_state m AND (MOD_INFO_REQ OR MOD_INFO_CHANGED) \<noteq> 0 \<and> \<not> strict \<and>
         snd (sr_perm_check env (ly_name (mi_ly_mod m)) wr True) = Inr False))"

text \<open>
  The checks of the entries end in access or in denial: the path can be allocated and
  \<^verbatim>\<open>eaccess\<close> succeeds or fails with \<^verbatim>\<open>EACCES\<close> (no other \<^verbatim>\<open>errno\<close>).
\<close>

definition only_denials :: "perm_env \<Rightarrow> bool \<Rightarrow> sr_mod_info_mod_s list \<Rightarrow> bool" where
  "only_denials env wr mods =
     (\<forall>m \<in> set mods. perm_checked m \<longrightarrow>
        env_asprintf_ok env (startup_file env m) \<and>
        (env_eaccess env (startup_file env m) (access_of wr) = None \<or>
         env_eaccess env (startup_file env m) (access_of wr) = Some EACCES))"

text \<open>The \<^verbatim>\<open>eaccess\<close> calls of the strict check: those of the checked entries up to the
  first denied one.\<close>

fun strict_calls :: "perm_env \<Rightarrow> bool \<Rightarrow> sr_mod_info_mod_s list \<Rightarrow> (string \<times> access_mode) list" where
  "strict_calls env wr [] = []"
| "strict_calls env wr (m # ms) =
     (if perm_checked m then
        perm_call env wr m # (if perm_denied env wr m then [] else strict_calls env wr ms)
      else strict_calls env wr ms)"

definition perm_check_result ::
  "perm_env \<Rightarrow> bool \<Rightarrow> bool \<Rightarrow> sr_mod_info_mod_s list \<Rightarrow> sr_mod_info_mod_s list
    \<Rightarrow> (string \<times> access_mode) list \<times> (sr_error_t + sr_mod_info_mod_s list)" where
  "perm_check_result env wr strict done todo =
     (if strict then
        (strict_calls env wr todo,
         if \<exists>m \<in> set todo. perm_denied env wr m then Inl SR_ERR_UNAUTHORIZED else Inr (done @ todo))
      else
        (map (perm_call env wr) (filter perm_checked todo),
         Inr (done @ filter (\<lambda>m. \<not> perm_denied env wr m) todo)))"

subsection \<open>A small installation, used to run the functions\<close>

text \<open>
  Three modules in Main SHM, in the order of their addresses: \<open>ops-ref\<close>, \<open>ops\<close> and
  \<open>other\<close>. Module \<open>ops\<close> refers to \<open>ops-ref\<close> (a leafref) and to \<open>other\<close> by an
  instance-identifier; \<open>ops\<close> is an inverse dependency of \<open>ops-ref\<close>.
\<close>

definition ex_ly :: "string \<Rightarrow> lys_module" where
  "ex_ly n = \<lparr>ly_name = n, ly_revision = ''2020-01-01'', ly_implemented = True\<rparr>"

definition ex_shm_mod :: "string \<Rightarrow> sr_mod_data_dep_s list \<Rightarrow> string list \<Rightarrow> sr_mod_s" where
  "ex_shm_mod n deps inv_deps =
     \<lparr>shm_ver = 1, shm_name = n, shm_flags = 0, shm_data_deps = deps,
      shm_inv_data_deps = inv_deps, shm_oper_subs = [], shm_notif_subs = []\<rparr>"

definition ex_conn :: sr_conn_ctx where
  "ex_conn =
     \<lparr>conn_main_shm =
        [ex_shm_mod ''ops-ref'' [] [''ops''],
         ex_shm_mod ''ops''
           [\<lparr>dep_type = SR_DEP_REF, dep_module = ''ops-ref'', dep_xpath = ''/ops:cont/ref''\<rparr>,
            \<lparr>dep_type = SR_DEP_INSTID, dep_module = ''other'', dep_xpath = ''/ops:cont/inst''\<rparr>] [],
         ex_shm_mod ''other'' [] []],
      conn_ly_ctx = [ex_ly ''ops-ref'', ex_ly ''ops'', ex_ly ''other''],
      conn_realloc_ok = (\<lambda>n. True)\<rparr>"

definition ex_mod_info :: sr_mod_info_s where
  "ex_mod_info =
     \<lparr>mi_ds = SR_DS_RUNNING, mi_ds2 = SR_DS_RUNNING, mi_diff = [], mi_data = [],
      mi_data_cached = False, mi_mods = []\<rparr>"

text \<open>The caller may read every startup file but that of \<open>ops-ref\<close>.\<close>

definition ex_perm_env :: perm_env where
  "ex_perm_env =
     \<lparr>env_startup_path = [], env_repo_path = ''/etc/sysrepo'',
      env_asprintf_ok = (\<lambda>p. True),
      env_eaccess = (\<lambda>p m. if p = ''/etc/sysrepo/data/ops-ref.startup'' then Some EACCES else None)\<rparr>"

definition ex_mi_opts :: sr_mi_opts where
  "ex_mi_opts =
     \<lparr>SR_MI_MOD_DEPS = False, SR_MI_LOCK_UPGRADEABLE = False, SR_MI_DATA_CACHE = False,
      SR_MI_DATA_NO = False, SR_MI_PERM_NO = True, SR_MI_PERM_READ = False,
      SR_MI_PERM_WRITE = False, SR_MI_PERM_STRICT = False\<rparr>"

definition ex_entry :: "nat \<Rightarrow> nat \<Rightarrow> string \<Rightarrow> sr_mod_info_mod_s" where
  "ex_entry shm_mod state n = \<lparr>mi_shm_mod = shm_mod, mi_state = state, mi_ly_mod = ex_ly n\<rparr>"


text \<open>
  A second installation, a chain of leafrefs: \<open>routing\<close> refers to \<open>interfaces\<close>, which
  refers to \<open>hardware\<close>. In Main SHM the modules are in the order \<open>hardware\<close>, \<open>interfaces\<close>,
  \<open>routing\<close>, and each is an inverse dependency of the one it refers to.
\<close>

definition ex_chain_conn :: sr_conn_ctx where
  "ex_chain_conn =
     \<lparr>conn_main_shm =
        [ex_shm_mod ''hardware'' [] [''interfaces''],
         ex_shm_mod ''interfaces''
           [\<lparr>dep_type = SR_DEP_REF, dep_module = ''hardware'', dep_xpath = ''/interfaces:if/hw''\<rparr>]
           [''routing''],
         ex_shm_mod ''routing''
           [\<lparr>dep_type = SR_DEP_REF, dep_module = ''interfaces'', dep_xpath = ''/routing:rt/if''\<rparr>]
           []],
      conn_ly_ctx = [ex_ly ''hardware'', ex_ly ''interfaces'', ex_ly ''routing''],
      conn_realloc_ok = (\<lambda>n. True)\<rparr>"

section \<open>Files, the running-data cache and the datastore writer\<close>

subsection \<open>The outside of the process\<close>

text \<open>
  The lock modes of \<^verbatim>\<open>sr_lock_mode_t\<close> that the functions below name.
\<close>

datatype sr_lock_mode_t = SR_LOCK_NONE | SR_LOCK_READ | SR_LOCK_WRITE

text \<open>
  What a datastore file holds: the data printed by a completed \<^verbatim>\<open>lyd_print_fd\<close>, or no
  complete image, which is the state of a file after it was opened with \<^verbatim>\<open>O_TRUNC\<close> and
  until the printing has succeeded.
\<close>

datatype file_content = File_data "lyd_node list" | File_damaged

text \<open>
  The answers of the operating system and of libyang that the functions below depend on:
  the path that \<^verbatim>\<open>sr_path_startup_file\<close> or \<^verbatim>\<open>sr_path_ds_shm\<close> builds for a module and a
  datastore (or their error), whether \<^verbatim>\<open>open\<close> is permitted on a path, whether
  \<^verbatim>\<open>lyd_print_fd\<close> succeeds on data, the result of \<^verbatim>\<open>sr_rwlock\<close> on the cache lock in a mode
  while a module is processed (\<open>None\<close> is success), whether \<^verbatim>\<open>realloc\<close> succeeds for a number
  of cache items, whether \<^verbatim>\<open>lyd_dup_siblings\<close> succeeds, and the results of
  \<^verbatim>\<open>lyd_diff_merge_module\<close>, \<^verbatim>\<open>lyd_new_implicit_module\<close> (\<open>None\<close> is a libyang error) and
  \<^verbatim>\<open>sr_diff_mod_update\<close>.
\<close>

record sys_env =
  sys_path :: "string \<Rightarrow> sr_datastore_t \<Rightarrow> sr_error_t + string"
  sys_open_ok :: "string \<Rightarrow> bool"
  sys_print_ok :: "lyd_node list \<Rightarrow> bool"
  sys_rwlock :: "lys_module \<Rightarrow> sr_lock_mode_t \<Rightarrow> sr_error_t option"
  sys_realloc_ok :: "nat \<Rightarrow> bool"
  sys_dup_ok :: "lyd_node list \<Rightarrow> bool"
  sys_diff_merge :: "lyd_node list \<Rightarrow> lyd_node list \<Rightarrow> lys_module \<Rightarrow> lyd_node list option"
  sys_new_implicit :: "lyd_node list \<Rightarrow> lys_module \<Rightarrow> lyd_node list option"
  sys_diff_mod_update :: "lyd_node list \<Rightarrow> lys_module \<Rightarrow> lyd_node list \<Rightarrow> sr_error_t + lyd_node list"

text \<open>
  What the functions do that is seen from outside, in the order in which they do it: a call
  of \<^verbatim>\<open>sr_module_file_data_set\<close> with its result, the increment of \<^verbatim>\<open>ver\<close> in a descriptor,
  and the steps of the cache update.
\<close>

datatype sr_event =
    Ev_file_set string sr_datastore_t "sr_error_t option"
  | Ev_ver_inc string nat
  | Ev_unlock sr_lock_mode_t
  | Ev_lock sr_lock_mode_t "sr_error_t option"
  | Ev_drop_data lys_module
  | Ev_add_item lys_module
  | Ev_set_ver nat "32 word"
  | Ev_install lys_module "lyd_node list"

text \<open>The files are a map from paths to contents; a path without a file maps to \<open>None\<close>.\<close>

type_synonym files = "string \<Rightarrow> file_content option"

subsection \<open>common.c: \<^verbatim>\<open>sr_module_data_unlink\<close>, \<^verbatim>\<open>sr_module_file_data_append\<close>, \<^verbatim>\<open>sr_module_file_data_set\<close>\<close>

text \<open>
  \<^verbatim>\<open>sr_module_data_unlink(data, ly_mod)\<close> takes the first run of top-level siblings that the
  module owns out of the data: the loop leaves at the first node of another module after
  such a node. The result is the unlinked run and the remaining data.
\<close>

definition sr_module_data_unlink ::
  "lyd_node list \<Rightarrow> lys_module \<Rightarrow> lyd_node list \<times> lyd_node list" where
  "sr_module_data_unlink data ly_mod =
     (let before = takeWhile (\<lambda>n. nd_module n \<noteq> ly_name ly_mod) data;
          from = dropWhile (\<lambda>n. nd_module n \<noteq> ly_name ly_mod) data
      in (takeWhile (\<lambda>n. nd_module n = ly_name ly_mod) from,
          before @ dropWhile (\<lambda>n. nd_module n = ly_name ly_mod) from))"

text \<open>
  \<^verbatim>\<open>sr_module_file_data_append(ly_mod, ds, data)\<close>, one pass from the label \<^verbatim>\<open>retry_open\<close>:
  the path of the file is built, the file is opened for reading and parsed. An error comes
  with the answer to whether it is \<^verbatim>\<open>open\<close> failing with \<^verbatim>\<open>ENOENT\<close>. A file without a
  complete image does not parse.
\<close>

definition file_data_open_parse ::
  "sys_env \<Rightarrow> files \<Rightarrow> lys_module \<Rightarrow> sr_datastore_t \<Rightarrow> (sr_error_t \<times> bool) + lyd_node list" where
  "file_data_open_parse env fs ly_mod ds =
     (case sys_path env (ly_name ly_mod) ds of
        Inl e \<Rightarrow> Inl (e, False)
      | Inr path \<Rightarrow>
          (case fs path of
             None \<Rightarrow> Inl (SR_ERR_SYS, True)
           | Some content \<Rightarrow>
               if \<not> sys_open_ok env path then Inl (SR_ERR_SYS, False)
               else (case content of
                       File_damaged \<Rightarrow> Inl (SR_ERR_LY, False)
                     | File_data mod_data \<Rightarrow> Inr mod_data)))"

text \<open>
  \<^verbatim>\<open>sr_module_file_data_append(ly_mod, ds, data)\<close>: the parsed siblings are inserted into
  \<open>data\<close>. A candidate file that does not exist makes the function start again with the
  running file.
\<close>

definition sr_module_file_data_append ::
  "sys_env \<Rightarrow> files \<Rightarrow> lys_module \<Rightarrow> sr_datastore_t \<Rightarrow> lyd_node list \<Rightarrow> sr_error_t + lyd_node list" where
  "sr_module_file_data_append env fs ly_mod ds data =
     (case file_data_open_parse env fs ly_mod ds of
        Inr mod_data \<Rightarrow> Inr (data @ mod_data)
      | Inl (e, enoent) \<Rightarrow>
          if enoent \<and> ds = SR_DS_CANDIDATE then
            (case file_data_open_parse env fs ly_mod SR_DS_RUNNING of
               Inr mod_data \<Rightarrow> Inr (data @ mod_data)
             | Inl (e', enoent') \<Rightarrow> Inl e')
          else Inl e)"

text \<open>
  \<^verbatim>\<open>sr_module_file_data_set(mod_name, ds, mod_data, create_flags, create_mode)\<close>: the file is
  opened with \<^verbatim>\<open>O_WRONLY | O_TRUNC | create_flags\<close>, which empties it, and the data are
  printed into it. \<open>create\<close> says whether \<^verbatim>\<open>create_flags\<close> has \<^verbatim>\<open>O_CREAT\<close>. The result is the
  error (the last one added where printing fails) and the files afterwards.
\<close>

definition sr_module_file_data_set ::
  "sys_env \<Rightarrow> files \<Rightarrow> string \<Rightarrow> sr_datastore_t \<Rightarrow> lyd_node list \<Rightarrow> bool \<Rightarrow> sr_error_t option \<times> files" where
  "sr_module_file_data_set env fs mod_name ds mod_data create =
     (case sys_path env mod_name ds of
        Inl e \<Rightarrow> (Some e, fs)
      | Inr path \<Rightarrow>
          if (fs path = None \<and> \<not> create) \<or> \<not> sys_open_ok env path then (Some SR_ERR_SYS, fs)
          else if \<not> sys_print_ok env mod_data then (Some SR_ERR_INTERNAL, fs(path \<mapsto> File_damaged))
          else (None, fs(path \<mapsto> File_data mod_data)))"

subsection \<open>modinfo.c: \<^verbatim>\<open>sr_modcache_module_running_update\<close>\<close>

text \<open>
  The cache of running data of a connection: the cached data and, for each cached module,
  the version of its data (\<^verbatim>\<open>struct sr_mod_cache_s\<close>; the lock is outside, in the events).
\<close>

record sr_mod_cache_mod_s =
  mc_ly_mod :: lys_module
  mc_ver :: "32 word"

record sr_mod_cache_s =
  mc_data :: "lyd_node list"
  mc_mods :: "sr_mod_cache_mod_s list"

text \<open>All that the writer and the cache update change: the files, Main SHM, the cache, and
  the events so far.\<close>

record sr_world =
  w_files :: files
  w_shm :: "sr_mod_s list"
  w_cache :: sr_mod_cache_s
  w_events :: "sr_event list"

definition emit :: "sr_event list \<Rightarrow> sr_world \<Rightarrow> sr_world" where
  "emit evs w = w\<lparr>w_events := w_events w @ evs\<rparr>"

fun first_cache_mod :: "lys_module \<Rightarrow> sr_mod_cache_mod_s list \<Rightarrow> nat" where
  "first_cache_mod ly_mod [] = 0"
| "first_cache_mod ly_mod (m # ms) =
     (if mc_ly_mod m = ly_mod then 0 else Suc (first_cache_mod ly_mod ms))"

text \<open>
  The end of \<^verbatim>\<open>sr_modcache_module_running_update\<close> from the label \<^verbatim>\<open>error_rlock\<close>: with
  \<^verbatim>\<open>read_locked\<close> the READ lock is taken again and its result is assigned to \<^verbatim>\<open>err_info\<close>,
  whatever \<^verbatim>\<open>err_info\<close> held before; a failure returns at once, and otherwise the function
  returns \<^verbatim>\<open>err_info\<close>.
\<close>

definition cache_error_rlock ::
  "sys_env \<Rightarrow> lys_module \<Rightarrow> bool \<Rightarrow> sr_error_t option \<Rightarrow> sr_world \<Rightarrow> sr_error_t option \<times> sr_world" where
  "cache_error_rlock env ly_mod read_locked err_info w =
     (if read_locked then
        (sys_rwlock env ly_mod SR_LOCK_READ,
         emit [Ev_lock SR_LOCK_READ (sys_rwlock env ly_mod SR_LOCK_READ)] w)
      else (err_info, w))"

text \<open>
  The block \<^verbatim>\<open>if (!mod_cache->mods[i].ver) { ... }\<close> with the labels \<^verbatim>\<open>error_wrunlock\<close> and
  \<^verbatim>\<open>error_rlock\<close> in it: the data are installed, from \<^verbatim>\<open>upd_mod_data\<close> when it is not \<^verbatim>\<open>NULL\<close>
  and from the running file otherwise, the version of the descriptor is stored, and the
  WRITE lock is given back.
\<close>

definition cache_append_current ::
  "sys_env \<Rightarrow> sr_mod_info_mod_s \<Rightarrow> lyd_node list \<Rightarrow> bool \<Rightarrow> nat \<Rightarrow> sr_world
    \<Rightarrow> sr_error_t option \<times> sr_world" where
  "cache_append_current env mod1 upd_mod_data read_locked i w =
     (let cache = w_cache w; ly_mod = mi_ly_mod mod1 in
      if mc_ver (mc_mods cache ! i) \<noteq> 0 then (None, w)
      else
        case (if upd_mod_data \<noteq> [] then
                if sys_dup_ok env upd_mod_data then Inr (mc_data cache @ upd_mod_data) else Inl SR_ERR_LY
              else sr_module_file_data_append env (w_files w) ly_mod SR_DS_RUNNING (mc_data cache)) of
          Inl e \<Rightarrow>
            cache_error_rlock env ly_mod read_locked (Some e) (emit [Ev_unlock SR_LOCK_WRITE] w)
        | Inr data' \<Rightarrow>
            cache_error_rlock env ly_mod read_locked None
              (emit [Ev_install ly_mod (drop (length (mc_data cache)) data'),
                     Ev_set_ver i (shm_ver (w_shm w ! mi_shm_mod mod1)),
                     Ev_unlock SR_LOCK_WRITE]
                 (w\<lparr>w_cache := cache\<lparr>mc_data := data',
                        mc_mods := (mc_mods cache)[i := (mc_mods cache ! i)
                                      \<lparr>mc_ver := shm_ver (w_shm w ! mi_shm_mod mod1)\<rparr>]\<rparr>\<rparr>)))"

text \<open>
  \<^verbatim>\<open>sr_modcache_module_running_update(mod_cache, mod, upd_mod_data, read_locked)\<close>. The
  descriptor of the module is \<^verbatim>\<open>mod->shm_mod\<close>, a position in Main SHM. A failed \<^verbatim>\<open>realloc\<close>
  returns with the WRITE lock held.
\<close>

definition sr_modcache_module_running_update ::
  "sys_env \<Rightarrow> sr_mod_info_mod_s \<Rightarrow> lyd_node list \<Rightarrow> bool \<Rightarrow> sr_world \<Rightarrow> sr_error_t option \<times> sr_world" where
  "sr_modcache_module_running_update env mod1 upd_mod_data read_locked w =
     (let cache = w_cache w; ly_mod = mi_ly_mod mod1;
          i = first_cache_mod ly_mod (mc_mods cache);
          ver = shm_ver (w_shm w ! mi_shm_mod mod1);
          unlock_read = (if read_locked then [Ev_unlock SR_LOCK_READ] else [])
      in
      if i < length (mc_mods cache) then
        if \<not> mc_ver (mc_mods cache ! i) \<le> ver then (Some Assert_failed, w)
        else if ver > mc_ver (mc_mods cache ! i) then
          (case sys_rwlock env ly_mod SR_LOCK_WRITE of
             Some e \<Rightarrow>
               cache_error_rlock env ly_mod read_locked (Some e)
                 (emit (unlock_read @ [Ev_lock SR_LOCK_WRITE (Some e)]) w)
           | None \<Rightarrow>
               cache_append_current env mod1 upd_mod_data read_locked i
                 (emit (unlock_read @ [Ev_lock SR_LOCK_WRITE None, Ev_drop_data ly_mod, Ev_set_ver i 0])
                    (w\<lparr>w_cache := cache\<lparr>mc_data := snd (sr_module_data_unlink (mc_data cache) ly_mod),
                           mc_mods := (mc_mods cache)[i := (mc_mods cache ! i)\<lparr>mc_ver := 0\<rparr>]\<rparr>\<rparr>)))
        else cache_append_current env mod1 upd_mod_data read_locked i w
      else
        (case sys_rwlock env ly_mod SR_LOCK_WRITE of
           Some e \<Rightarrow>
             cache_error_rlock env ly_mod read_locked (Some e)
               (emit (unlock_read @ [Ev_lock SR_LOCK_WRITE (Some e)]) w)
         | None \<Rightarrow>
             if \<not> sys_realloc_ok env (i + 1)
             then (Some SR_ERR_NOMEM, emit (unlock_read @ [Ev_lock SR_LOCK_WRITE None]) w)
             else
               cache_append_current env mod1 upd_mod_data read_locked i
                 (emit (unlock_read @ [Ev_lock SR_LOCK_WRITE None, Ev_add_item ly_mod, Ev_set_ver i 0])
                    (w\<lparr>w_cache := cache\<lparr>mc_mods := mc_mods cache @ [\<lparr>mc_ly_mod = ly_mod, mc_ver = 0\<rparr>]\<rparr>\<rparr>))))"

subsection \<open>modinfo.c: \<^verbatim>\<open>sr_modinfo_data_store\<close>\<close>

text \<open>
  The block \<^verbatim>\<open>if (mod_info->ds == SR_DS_RUNNING)\<close> at the end of a round of the loop of
  \<^verbatim>\<open>sr_modinfo_data_store\<close>, which updates the stored operational diff of the module, if
  there is any: \<open>mod_data\<close> are the data of the module, connected back to the \<open>rest\<close> of the
  data. The result is \<^verbatim>\<open>err_info\<close>, where an error means \<^verbatim>\<open>goto cleanup\<close>, the data of the
  mod info and the world.
\<close>

definition data_store_oper_diff ::
  "sys_env \<Rightarrow> lys_module \<Rightarrow> lyd_node list \<Rightarrow> lyd_node list \<Rightarrow> sr_world
    \<Rightarrow> sr_error_t option \<times> lyd_node list \<times> sr_world" where
  "data_store_oper_diff env ly_mod mod_data rest w =
     (case sr_module_file_data_append env (w_files w) ly_mod SR_DS_OPERATIONAL [] of
        Inl e \<Rightarrow> (Some e, rest @ mod_data, w)
      | Inr diff \<Rightarrow>
          if diff = [] then (None, rest @ mod_data, w)
          else
            (case sys_new_implicit env mod_data ly_mod of
               None \<Rightarrow> (Some SR_ERR_LY, rest @ mod_data, w)
             | Some mod_data' \<Rightarrow>
                 (case sys_diff_mod_update env diff ly_mod mod_data' of
                    Inl e \<Rightarrow> (Some e, rest @ mod_data', w)
                  | Inr diff' \<Rightarrow>
                      (case sr_module_file_data_set env (w_files w) (ly_name ly_mod)
                              SR_DS_OPERATIONAL diff' False of
                         (r, fs') \<Rightarrow>
                           (r, rest @ mod_data',
                            emit [Ev_file_set (ly_name ly_mod) SR_DS_OPERATIONAL r]
                              (w\<lparr>w_files := fs'\<rparr>))))))"

text \<open>
  The branch \<^verbatim>\<open>if (mod_info->ds == SR_DS_OPERATIONAL)\<close> of a round: the stored diff is
  loaded, merged with the new diff of the mod info and stored.
\<close>

definition data_store_oper ::
  "sys_env \<Rightarrow> lyd_node list \<Rightarrow> lys_module \<Rightarrow> sr_world \<Rightarrow> sr_error_t option \<times> sr_world" where
  "data_store_oper env mod_info_diff ly_mod w =
     (case sr_module_file_data_append env (w_files w) ly_mod SR_DS_OPERATIONAL [] of
        Inl e \<Rightarrow> (Some e, w)
      | Inr diff \<Rightarrow>
          (case sys_diff_merge env diff mod_info_diff ly_mod of
             None \<Rightarrow> (Some SR_ERR_LY, w)
           | Some diff' \<Rightarrow>
               (case sr_module_file_data_set env (w_files w) (ly_name ly_mod)
                       SR_DS_OPERATIONAL diff' False of
                  (r, fs') \<Rightarrow>
                    (r, emit [Ev_file_set (ly_name ly_mod) SR_DS_OPERATIONAL r]
                          (w\<lparr>w_files := fs'\<rparr>)))))"

text \<open>
  One round of the loop of \<^verbatim>\<open>sr_modinfo_data_store\<close> for a module with \<^verbatim>\<open>MOD_INFO_CHANGED\<close>.
  \<open>cache_running\<close> is \<^verbatim>\<open>mod_info->conn->opts & SR_CONN_CACHE_RUNNING\<close>. The local \<^verbatim>\<open>diff\<close> is
  \<^verbatim>\<open>NULL\<close> at the start of every round. The result is \<^verbatim>\<open>err_info\<close>, where an error means that
  the round left with \<^verbatim>\<open>goto cleanup\<close>, the data of the mod info and the world. Where the
  file of the module cannot be written, the data of the module stay unlinked.

  In the running datastore the error of the cache update is merged into \<^verbatim>\<open>err_info\<close> and
  then \<^verbatim>\<open>err_info\<close> is assigned the result of reading the stored operational diff, so the
  round does not return it.
\<close>

definition data_store_mod ::
  "sys_env \<Rightarrow> bool \<Rightarrow> sr_datastore_t \<Rightarrow> lyd_node list \<Rightarrow> sr_mod_info_mod_s
    \<Rightarrow> lyd_node list \<times> sr_world \<Rightarrow> sr_error_t option \<times> lyd_node list \<times> sr_world" where
  "data_store_mod env cache_running ds mod_info_diff mod1 = (\<lambda>(data, w).
     let ly_mod = mi_ly_mod mod1; name = ly_name ly_mod in
     if ds = SR_DS_OPERATIONAL then
       (case data_store_oper env mod_info_diff ly_mod w of (r, w') \<Rightarrow> (r, data, w'))
     else
       (case sr_module_data_unlink data ly_mod of
          (mod_data, rest) \<Rightarrow>
            (case sr_module_file_data_set env (w_files w) name ds mod_data (ds = SR_DS_CANDIDATE) of
               (Some e, fs') \<Rightarrow>
                 (Some e, rest, emit [Ev_file_set name ds (Some e)] (w\<lparr>w_files := fs'\<rparr>))
             | (None, fs') \<Rightarrow>
                 let w1 = emit [Ev_file_set name ds None] (w\<lparr>w_files := fs'\<rparr>) in
                 if ds \<noteq> SR_DS_RUNNING then (None, rest @ mod_data, w1)
                 else
                   let shm = w_shm w1; k = mi_shm_mod mod1;
                       w2 = emit [Ev_ver_inc name k]
                              (w1\<lparr>w_shm := shm[k := (shm ! k)\<lparr>shm_ver := shm_ver (shm ! k) + 1\<rparr>]\<rparr>);
                       w3 = (if cache_running
                             then snd (sr_modcache_module_running_update env mod1 mod_data False w2)
                             else w2)
                   in data_store_oper_diff env ly_mod mod_data rest w3)))"

text \<open>
  The loop \<^verbatim>\<open>for (i = 0; i < mod_info->mod_count; ++i)\<close>: modules without
  \<^verbatim>\<open>MOD_INFO_CHANGED\<close> are passed over, and the first error ends the loop.
\<close>

fun data_store_loop ::
  "sys_env \<Rightarrow> bool \<Rightarrow> sr_datastore_t \<Rightarrow> lyd_node list \<Rightarrow> sr_mod_info_mod_s list
    \<Rightarrow> lyd_node list \<times> sr_world \<Rightarrow> sr_error_t option \<times> lyd_node list \<times> sr_world" where
  "data_store_loop env cache_running ds mod_info_diff [] st = (None, st)"
| "data_store_loop env cache_running ds mod_info_diff (mod1 # mods) st =
     (if mi_state mod1 AND MOD_INFO_CHANGED \<noteq> 0 then
        (case data_store_mod env cache_running ds mod_info_diff mod1 st of
           (Some e, st') \<Rightarrow> (Some e, st')
         | (None, st') \<Rightarrow> data_store_loop env cache_running ds mod_info_diff mods st')
      else data_store_loop env cache_running ds mod_info_diff mods st)"

text \<open>
  \<^verbatim>\<open>sr_modinfo_data_store(mod_info)\<close>. The result is \<^verbatim>\<open>err_info\<close>, the mod info and the world
  afterwards.
\<close>

definition sr_modinfo_data_store ::
  "sys_env \<Rightarrow> bool \<Rightarrow> sr_mod_info_s \<Rightarrow> sr_world \<Rightarrow> sr_error_t option \<times> sr_mod_info_s \<times> sr_world" where
  "sr_modinfo_data_store env cache_running mod_info w =
     (if mi_data_cached mod_info then (Some Assert_failed, mod_info, w)
      else
        case data_store_loop env cache_running (mi_ds mod_info) (mi_diff mod_info)
               (mi_mods mod_info) (mi_data mod_info, w) of
          (r, data', w') \<Rightarrow> (r, mod_info\<lparr>mi_data := data'\<rparr>, w'))"

subsection \<open>Writes and versions in the events\<close>


text \<open>The positions of the descriptors whose \<^verbatim>\<open>ver\<close> was incremented, in order.\<close>

fun ver_incs :: "sr_event list \<Rightarrow> nat list" where
  "ver_incs [] = []"
| "ver_incs (Ev_ver_inc name k # evs) = k # ver_incs evs"
| "ver_incs (e # evs) = ver_incs evs"

text \<open>The modules whose running file was written with success, in order.\<close>

fun running_writes :: "sr_event list \<Rightarrow> string list" where
  "running_writes [] = []"
| "running_writes (Ev_file_set name SR_DS_RUNNING None # evs) = name # running_writes evs"
| "running_writes (e # evs) = running_writes evs"





text \<open>\<^verbatim>\<open>++shm_mod->ver\<close> on the descriptor at a position of Main SHM.\<close>

definition bump_ver :: "nat \<Rightarrow> sr_mod_s list \<Rightarrow> sr_mod_s list" where
  "bump_ver k shm = shm[k := (shm ! k)\<lparr>shm_ver := shm_ver (shm ! k) + 1\<rparr>]"

subsection \<open>A world to run the writer in\<close>

text \<open>
  Every datastore of a module has a file of its own; every system call and every libyang
  call succeeds; merging a diff appends the new one, and updating a diff leaves it.
\<close>

definition ex_path :: "string \<Rightarrow> sr_datastore_t \<Rightarrow> string" where
  "ex_path name ds =
     (case ds of
        SR_DS_STARTUP \<Rightarrow> ''/etc/sysrepo/data/'' @ name @ ''.startup''
      | SR_DS_RUNNING \<Rightarrow> ''/dev/shm/sr_'' @ name @ ''.running''
      | SR_DS_CANDIDATE \<Rightarrow> ''/dev/shm/sr_'' @ name @ ''.candidate''
      | SR_DS_OPERATIONAL \<Rightarrow> ''/dev/shm/sr_'' @ name @ ''.operational'')"

definition ex_sys_env :: sys_env where
  "ex_sys_env =
     \<lparr>sys_path = (\<lambda>name ds. Inr (ex_path name ds)),
      sys_open_ok = (\<lambda>path. True),
      sys_print_ok = (\<lambda>data. True),
      sys_rwlock = (\<lambda>ly_mod mode. None),
      sys_realloc_ok = (\<lambda>n. True),
      sys_dup_ok = (\<lambda>data. True),
      sys_diff_merge = (\<lambda>diff new_diff ly_mod. Some (diff @ new_diff)),
      sys_new_implicit = (\<lambda>data ly_mod. Some data),
      sys_diff_mod_update = (\<lambda>diff ly_mod data. Inr diff)\<rparr>"

definition ex_old_data :: "lyd_node list" where
  "ex_old_data = [Lyd_node ''ops'' ''cont'' EDIT_CONTINUE []]"

definition ex_new_data :: "lyd_node list" where
  "ex_new_data =
     [Lyd_node ''ops'' ''cont'' EDIT_CONTINUE [Lyd_node ''ops'' ''leaf'' EDIT_CONTINUE []]]"

definition ex_oper_diff :: "lyd_node list" where
  "ex_oper_diff = [Lyd_node ''ops'' ''cont'' EDIT_MERGE []]"

text \<open>
  The world before the write: the running file of \<open>ops\<close> holds the old data, there is a
  stored operational diff, the descriptors of \<open>ex_conn\<close> are in Main SHM with the given
  \<^verbatim>\<open>ver\<close> for \<open>ops\<close> (position 1), and the cache is empty.
\<close>

definition ex_world :: "32 word \<Rightarrow> sr_world" where
  "ex_world ver =
     \<lparr>w_files = [ex_path ''ops'' SR_DS_RUNNING \<mapsto> File_data ex_old_data,
                 ex_path ''ops'' SR_DS_OPERATIONAL \<mapsto> File_data ex_oper_diff],
      w_shm = (conn_main_shm ex_conn)[1 := (conn_main_shm ex_conn ! 1)\<lparr>shm_ver := ver\<rparr>],
      w_cache = \<lparr>mc_data = [], mc_mods = []\<rparr>,
      w_events = []\<rparr>"

text \<open>The mod info of a change of the running data of \<open>ops\<close>.\<close>

definition ex_store_mod_info :: sr_mod_info_s where
  "ex_store_mod_info =
     ex_mod_info\<lparr>mi_data := ex_new_data,
                 mi_mods := [ex_entry 0 MOD_INFO_DEP ''ops-ref'',
                             ex_entry 1 (MOD_INFO_REQ OR MOD_INFO_CHANGED) ''ops'']\<rparr>"

text \<open>The write with the cache of running data enabled, in a world where everything
  succeeds, and in one where printing the data fails.\<close>

definition ex_store_run :: "32 word \<Rightarrow> sr_error_t option \<times> sr_mod_info_s \<times> sr_world" where
  "ex_store_run ver = sr_modinfo_data_store ex_sys_env True ex_store_mod_info (ex_world ver)"




section \<open>The config-change notification: \<^verbatim>\<open>sr_modinfo_generate_config_change_notif\<close>\<close>

subsection \<open>What the function calls\<close>

text \<open>
  \<^verbatim>\<open>sr_ds2str\<close> (common.c).
\<close>

definition sr_ds2str :: "sr_datastore_t \<Rightarrow> string" where
  "sr_ds2str ds =
     (case ds of
        SR_DS_RUNNING \<Rightarrow> ''running''
      | SR_DS_STARTUP \<Rightarrow> ''startup''
      | SR_DS_CANDIDATE \<Rightarrow> ''candidate''
      | SR_DS_OPERATIONAL \<Rightarrow> ''operational'')"

text \<open>
  \<^verbatim>\<open>sr_notif_find_subscriber(conn, mod_name, &notif_subs, &notif_sub_count)\<close> (common.c): the
  notification subscriptions of the module and the number of those that are not
  suspended; \<^verbatim>\<open>SR_ERR_INTERNAL\<close> when the module has no descriptor. The descriptor counts its
  subscriptions in a \<^verbatim>\<open>uint16_t\<close>, so the \<^verbatim>\<open>uint32_t\<close> counter of the function does not wrap.
\<close>

definition sr_notif_find_subscriber ::
  "sr_conn_ctx \<Rightarrow> string \<Rightarrow> sr_error_t + (sr_mod_notif_sub_s list \<times> nat)" where
  "sr_notif_find_subscriber conn mod_name =
     (case sr_shmmain_find_module (conn_main_shm conn) mod_name of
        None \<Rightarrow> Inl SR_ERR_INTERNAL
      | Some shm_mod \<Rightarrow>
          Inr (shm_notif_subs (conn_main_shm conn ! shm_mod),
               length (filter (\<lambda>s. \<not> nsub_suspended s) (shm_notif_subs (conn_main_shm conn ! shm_mod)))))"

text \<open>
  Modelled from the spec: \<^verbatim>\<open>sr_edit_diff_find_oper(edit, 0, NULL)\<close> is in edit_diff.c, which
  is not part of the sources at hand; by its declaration in edit_diff.h it finds the
  operation of a node, and without \<^verbatim>\<open>recursive\<close> it does not look at the parents. It is the
  operation stored in the node, \<^verbatim>\<open>EDIT_CONTINUE\<close> (0) for a node that stores none.
\<close>

definition sr_edit_diff_find_oper :: "lyd_node \<Rightarrow> edit_op" where
  "sr_edit_diff_find_oper edit = nd_oper edit"

text \<open>
  The nodes that \<^verbatim>\<open>LYD_TREE_DFS_BEGIN\<close> ... \<^verbatim>\<open>LYD_TREE_DFS_END\<close> visits from a root, parents
  before children, and those of all the trees of a diff.
\<close>

fun lyd_tree_dfs :: "lyd_node \<Rightarrow> lyd_node list" where
  "lyd_tree_dfs (Lyd_node m n oper children) =
     Lyd_node m n oper children # concat (map lyd_tree_dfs children)"

definition diff_nodes :: "lyd_node list \<Rightarrow> lyd_node list" where
  "diff_nodes diff = concat (map lyd_tree_dfs diff)"

text \<open>
  \<^verbatim>\<open>sr_change_oper_t\<close>, with one more value for an \<^verbatim>\<open>op\<close> that is none of the four, which the
  \<^verbatim>\<open>default\<close> branch of the \<^verbatim>\<open>switch\<close> is for.
\<close>

datatype sr_change_oper_t = SR_OP_CREATED | SR_OP_MODIFIED | SR_OP_DELETED | SR_OP_MOVED | SR_OP_other

text \<open>The \<^verbatim>\<open>switch (op)\<close> of the function: the name of the operation in the notification,
  or nothing in the \<^verbatim>\<open>default\<close> branch.\<close>

fun op_enum :: "sr_change_oper_t \<Rightarrow> string option" where
  "op_enum SR_OP_CREATED = Some ''create''"
| "op_enum SR_OP_MODIFIED = Some ''replace''"
| "op_enum SR_OP_DELETED = Some ''delete''"
| "op_enum SR_OP_MOVED = Some ''merge''"
| "op_enum SR_OP_other = None"

text \<open>The session, as far as the function reads it: \<^verbatim>\<open>sid.user\<close> and \<^verbatim>\<open>sid.nc\<close>.\<close>

record sr_session_ctx =
  sess_user :: string
  sess_nc :: "32 word"

text \<open>
  The notification \<^verbatim>\<open>netconf-config-change\<close> that the function builds: the user and the
  NETCONF session id in \<^verbatim>\<open>changed-by\<close> (the leaf holds the number printed with \<^verbatim>\<open>%u\<close>), the
  datastore, and the list \<^verbatim>\<open>edit\<close> of targets and operations.
\<close>

record netconf_config_change =
  ncc_username :: string
  ncc_session_id :: "32 word"
  ncc_datastore :: string
  ncc_edit :: "(string \<times> string) list"

text \<open>
  The calls that leave the function: building starts with \<^verbatim>\<open>lyd_new_path\<close>, the
  notification is stored for replay by \<^verbatim>\<open>sr_replay_store\<close> and delivered by
  \<^verbatim>\<open>sr_shmsub_notif_notify\<close>.
\<close>

datatype notif_event =
    Nev_new_path
  | Nev_replay_store netconf_config_change
  | Nev_notify netconf_config_change "sr_mod_notif_sub_s list" nat

text \<open>
  The answers of libyang and of the functions of other files: whether \<^verbatim>\<open>ly_set_new\<close> and
  \<^verbatim>\<open>ly_set_add\<close> succeed, whether the libyang call that creates the node of a name succeeds
  (for the nodes of an entry of \<^verbatim>\<open>edit\<close>, with the number of the entry), the path that
  \<^verbatim>\<open>lyd_path\<close> gives for a node (\<open>None\<close> is \<^verbatim>\<open>NULL\<close>), and the results of \<^verbatim>\<open>sr_replay_store\<close>
  and \<^verbatim>\<open>sr_shmsub_notif_notify\<close> (\<open>None\<close> is success).

  \<^verbatim>\<open>sr_diff_set_getnext(set, &idx, &elem, &op)\<close> is in edit_diff.c, which is not part of the
  sources at hand. Modelled from the spec: by its declaration in edit_diff.h it gets the
  next change from the set, from index \<^verbatim>\<open>idx\<close> on, as the changed node and its operation.
  Which nodes of the set are changes, with which operation, and for which node the function
  fails, is \<open>ne_change\<close>; after the last change the function gives no node.
\<close>

record notif_env =
  ne_set_new_ok :: bool
  ne_set_add_ok :: "lyd_node \<Rightarrow> bool"
  ne_ly_new_ok :: "string \<Rightarrow> nat \<Rightarrow> bool"
  ne_lyd_path :: "lyd_node \<Rightarrow> string option"
  ne_change :: "lyd_node \<Rightarrow> sr_error_t + sr_change_oper_t option"
  ne_replay_store :: "netconf_config_change \<Rightarrow> sr_error_t option"
  ne_notify :: "netconf_config_change \<Rightarrow> sr_error_t option"

subsection \<open>The function\<close>

text \<open>
  The loop \<^verbatim>\<open>while (!(err_info = sr_diff_set_getnext(set, &idx, &elem, &op)) && elem)\<close> on
  the nodes of the set from \<^verbatim>\<open>idx\<close> on, with the entries of \<^verbatim>\<open>edit\<close> made so far. A failure
  in the body leaves with \<^verbatim>\<open>goto cleanup\<close>. The loop ends with \<^verbatim>\<open>err_info\<close> as
  \<^verbatim>\<open>sr_diff_set_getnext\<close> returned it, and the function goes on after the loop with that
  \<^verbatim>\<open>err_info\<close> and the entries.
\<close>

datatype edit_loop = Loop_cleanup sr_error_t | Loop_end "sr_error_t option" "(string \<times> string) list"

fun notif_edit_loop :: "notif_env \<Rightarrow> lyd_node list \<Rightarrow> (string \<times> string) list \<Rightarrow> edit_loop" where
  "notif_edit_loop env [] edits = Loop_end None edits"
| "notif_edit_loop env (elem # nodes) edits =
     (case ne_change env elem of
        Inl e \<Rightarrow> Loop_end (Some e) edits
      | Inr None \<Rightarrow> notif_edit_loop env nodes edits
      | Inr (Some op) \<Rightarrow>
          if \<not> ne_ly_new_ok env ''edit'' (length edits) then Loop_cleanup SR_ERR_LY
          else
            (case ne_lyd_path env elem of
               None \<Rightarrow> Loop_cleanup SR_ERR_LY
             | Some xpath \<Rightarrow>
                 if \<not> ne_ly_new_ok env ''target'' (length edits) then Loop_cleanup SR_ERR_LY
                 else
                   (case op_enum op of
                      None \<Rightarrow> Loop_cleanup SR_ERR_INTERNAL
                    | Some op_name \<Rightarrow>
                        if \<not> ne_ly_new_ok env ''operation'' (length edits) then Loop_cleanup SR_ERR_LY
                        else notif_edit_loop env nodes (edits @ [(xpath, op_name)]))))"

text \<open>
  The end of the function from the label \<^verbatim>\<open>cleanup\<close>: the error of the function, to which the
  error of \<^verbatim>\<open>sr_replay_store\<close> is merged. Of two errors the result here is the first.
\<close>

definition notif_cleanup :: "sr_error_t option \<Rightarrow> sr_error_t option \<Rightarrow> sr_error_t option" where
  "notif_cleanup err_info tmp_err_info = (case err_info of Some e \<Rightarrow> Some e | None \<Rightarrow> tmp_err_info)"

text \<open>
  \<^verbatim>\<open>sr_modinfo_generate_config_change_notif(mod_info, session)\<close>: the result is \<^verbatim>\<open>err_info\<close>
  and the calls that left the function. After the loop the notification is stored for
  replay, and with subscribers \<^verbatim>\<open>err_info\<close> is assigned the result of the delivery, whatever
  it held.
\<close>

definition sr_modinfo_generate_config_change_notif ::
  "notif_env \<Rightarrow> sr_conn_ctx \<Rightarrow> sr_mod_info_s \<Rightarrow> sr_session_ctx \<Rightarrow> sr_error_t option \<times> notif_event list" where
  "sr_modinfo_generate_config_change_notif env conn mod_info session =
     (if \<not> list_ex (\<lambda>elem. sr_edit_diff_find_oper elem \<noteq> EDIT_CONTINUE \<and>
                            sr_edit_diff_find_oper elem \<noteq> EDIT_NONE) (diff_nodes (mi_diff mod_info))
      then (None, [])
      else if mi_ds mod_info = SR_DS_CANDIDATE \<or> mi_ds mod_info = SR_DS_OPERATIONAL then (None, [])
      else
        case sr_notif_find_subscriber conn ''ietf-netconf-notifications'' of
          Inl e \<Rightarrow> (Some e, [])
        | Inr (notif_subs, notif_sub_count) \<Rightarrow>
            (case sr_shmmain_find_module (conn_main_shm conn) ''ietf-netconf-notifications'' of
               None \<Rightarrow> (Some SR_ERR_INTERNAL, [])
             | Some shm_mod \<Rightarrow>
                 if shm_flags (conn_main_shm conn ! shm_mod) AND SR_MOD_REPLAY_SUPPORT = 0 \<and>
                    notif_sub_count = 0
                 then (None, [])
                 else if \<not> ne_set_new_ok env then (notif_cleanup (Some SR_ERR_NOMEM) None, [])
                 else if \<not> list_all (ne_set_add_ok env) (diff_nodes (mi_diff mod_info))
                 then (notif_cleanup (Some SR_ERR_INTERNAL) None, [])
                 else if \<not> ne_ly_new_ok env ''netconf-config-change'' 0
                 then (notif_cleanup (Some SR_ERR_LY) None, [Nev_new_path])
                 else if \<not> ne_ly_new_ok env ''changed-by'' 0
                 then (notif_cleanup (Some SR_ERR_LY) None, [Nev_new_path])
                 else if \<not> ne_ly_new_ok env ''username'' 0
                 then (notif_cleanup (Some SR_ERR_LY) None, [Nev_new_path])
                 else if \<not> ne_ly_new_ok env ''session-id'' 0
                 then (notif_cleanup (Some SR_ERR_LY) None, [Nev_new_path])
                 else if \<not> ne_ly_new_ok env ''datastore'' 0
                 then (notif_cleanup (Some SR_ERR_LY) None, [Nev_new_path])
                 else
                   (case notif_edit_loop env (diff_nodes (mi_diff mod_info)) [] of
                      Loop_cleanup e \<Rightarrow> (notif_cleanup (Some e) None, [Nev_new_path])
                    | Loop_end err_info edits \<Rightarrow>
                        let notif = \<lparr>ncc_username = sess_user session,
                                     ncc_session_id = sess_nc session,
                                     ncc_datastore = sr_ds2str (mi_ds mod_info),
                                     ncc_edit = edits\<rparr>;
                            tmp_err_info = ne_replay_store env notif
                        in
                        if notif_sub_count \<noteq> 0
                        then (notif_cleanup (ne_notify env notif) tmp_err_info,
                              [Nev_new_path, Nev_replay_store notif,
                               Nev_notify notif notif_subs notif_sub_count])
                        else (notif_cleanup err_info tmp_err_info,
                              [Nev_new_path, Nev_replay_store notif]))))"

subsection \<open>Notions used to state the properties of the notification\<close>

text \<open>The diff has a node with an effective operation.\<close>

definition has_changes :: "lyd_node list \<Rightarrow> bool" where
  "has_changes diff =
     list_ex (\<lambda>elem. nd_oper elem \<noteq> EDIT_CONTINUE \<and> nd_oper elem \<noteq> EDIT_NONE) (diff_nodes diff)"

text \<open>The changes of a set, as \<^verbatim>\<open>sr_diff_set_getnext\<close> gives them one after the other.\<close>

fun set_changes :: "notif_env \<Rightarrow> lyd_node list \<Rightarrow> (lyd_node \<times> sr_change_oper_t) list" where
  "set_changes env [] = []"
| "set_changes env (elem # nodes) =
     (case ne_change env elem of
        Inr (Some op) \<Rightarrow> (elem, op) # set_changes env nodes
      | _ \<Rightarrow> set_changes env nodes)"

text \<open>Every call that the function makes to build the notification of these changes
  succeeds, and the operations are among the four.\<close>

definition notif_builds :: "notif_env \<Rightarrow> lyd_node list \<Rightarrow> bool" where
  "notif_builds env nodes =
     (ne_set_new_ok env \<and> list_all (ne_set_add_ok env) nodes \<and>
      list_all (\<lambda>name. ne_ly_new_ok env name 0)
        [''netconf-config-change'', ''changed-by'', ''username'', ''session-id'', ''datastore''] \<and>
      list_all (\<lambda>elem. case ne_change env elem of Inl e \<Rightarrow> False | Inr c \<Rightarrow> True) nodes \<and>
      list_all (\<lambda>(elem, op). ne_lyd_path env elem \<noteq> None \<and> op \<noteq> SR_OP_other) (set_changes env nodes) \<and>
      list_all (\<lambda>k. ne_ly_new_ok env ''edit'' k \<and> ne_ly_new_ok env ''target'' k \<and>
                     ne_ly_new_ok env ''operation'' k) [0 ..< length (set_changes env nodes)])"


text \<open>The number of notification subscriptions of a module that are not suspended.\<close>

definition active_notif_subs :: "sr_conn_ctx \<Rightarrow> string \<Rightarrow> nat" where
  "active_notif_subs conn mod_name =
     (case sr_shmmain_find_module (conn_main_shm conn) mod_name of
        None \<Rightarrow> 0
      | Some shm_mod \<Rightarrow>
          length (filter (\<lambda>s. \<not> nsub_suspended s) (shm_notif_subs (conn_main_shm conn ! shm_mod))))"

subsection \<open>An installation with the notification module\<close>

text \<open>
  Main SHM holds \<open>ietf-netconf-notifications\<close> with the given flags and notification
  subscriptions. The diff replaces a leaf of \<open>ops\<close> in a container that stores no
  operation. Every node with an operation is a change, \<^verbatim>\<open>EDIT_REPLACE\<close> as
  \<^verbatim>\<open>SR_OP_MODIFIED\<close>; every call succeeds.
\<close>

definition ex_notif_conn :: "8 word \<Rightarrow> sr_mod_notif_sub_s list \<Rightarrow> sr_conn_ctx" where
  "ex_notif_conn flags subs =
     \<lparr>conn_main_shm =
        [\<lparr>shm_ver = 1, shm_name = ''ietf-netconf-notifications'', shm_flags = flags,
          shm_data_deps = [], shm_inv_data_deps = [], shm_oper_subs = [], shm_notif_subs = subs\<rparr>,
         ex_shm_mod ''ops'' [] []],
      conn_ly_ctx = [ex_ly ''ietf-netconf-notifications'', ex_ly ''ops''],
      conn_realloc_ok = (\<lambda>n. True)\<rparr>"

definition ex_notif_sub :: "bool \<Rightarrow> sr_mod_notif_sub_s" where
  "ex_notif_sub suspended =
     \<lparr>nsub_sub_id = 1, nsub_evpipe_num = 7, nsub_suspended = suspended, nsub_cid = 3\<rparr>"

definition ex_diff :: "lyd_node list" where
  "ex_diff = [Lyd_node ''ops'' ''cont'' EDIT_CONTINUE [Lyd_node ''ops'' ''leaf'' EDIT_REPLACE []]]"

definition ex_notif_mod_info :: sr_mod_info_s where
  "ex_notif_mod_info = ex_mod_info\<lparr>mi_diff := ex_diff\<rparr>"

definition ex_session :: sr_session_ctx where
  "ex_session = \<lparr>sess_user = ''admin'', sess_nc = 12\<rparr>"

definition ex_notif_env :: notif_env where
  "ex_notif_env =
     \<lparr>ne_set_new_ok = True,
      ne_set_add_ok = (\<lambda>elem. True),
      ne_ly_new_ok = (\<lambda>name k. True),
      ne_lyd_path = (\<lambda>elem. Some (''/'' @ nd_module elem @ '':cont/'' @ nd_name elem)),
      ne_change = (\<lambda>elem. Inr (if nd_oper elem = EDIT_REPLACE then Some SR_OP_MODIFIED else None)),
      ne_replay_store = (\<lambda>notif. None),
      ne_notify = (\<lambda>notif. None)\<rparr>"

section \<open>Operational data of a module: \<^verbatim>\<open>sr_module_oper_data_update\<close>\<close>

subsection \<open>common.c: \<^verbatim>\<open>sr_xpath_trim_last_node\<close>\<close>



subsection \<open>The providers and libyang\<close>



text \<open>
  What is seen of a run: the calls of \<^verbatim>\<open>sr_lyd_xpath_complement\<close> and of the provider
  (\<^verbatim>\<open>sr_shmsub_oper_notify\<close>, with the subscription XPath and the data parent) and the
  merges of provider data.
\<close>

datatype oper_event =
    Oev_complement string
  | Oev_notify string "lyd_node option"
  | Oev_merge string "lyd_node list"

text \<open>
  The state that the calls work on: the data tree \<^verbatim>\<open>*data\<close>, \<^verbatim>\<open>*cb_error_info\<close> and the
  events so far. A provider call that generates callback error information stores it in
  \<^verbatim>\<open>*cb_error_info\<close>; one that generates none leaves it.
\<close>

record oper_state =
  os_data :: "lyd_node list"
  os_cb_error_info :: "sr_error_t option"
  os_events :: "oper_event list"

subsection \<open>modinfo.c: \<^verbatim>\<open>sr_xpath_oper_data_get\<close>, \<^verbatim>\<open>sr_xpath_oper_data_append\<close>\<close>




subsection \<open>modinfo.c: \<^verbatim>\<open>sr_module_oper_data_update\<close>\<close>







subsection \<open>Notions used to state the properties of the update\<close>

text \<open>The events that a run has added, and the events of the provider of a subscription
  XPath: its calls and the merges of its data.\<close>

definition oper_new_events :: "oper_state \<Rightarrow> oper_state \<Rightarrow> oper_event list" where
  "oper_new_events st st' = drop (length (os_events st)) (os_events st')"









section \<open>The static prune: \<^verbatim>\<open>sr_xpath_oper_data_required\<close>\<close>

subsection \<open>common.c: \<^verbatim>\<open>sr_xpath_next_name\<close>, \<^verbatim>\<open>sr_xpath_next_predicate\<close>\<close>

text \<open>
  A C string is the list of its characters before the terminating \<^verbatim>\<open>NUL\<close>, and a pointer
  into it is the rest of the list from there; \<^verbatim>\<open>ptr[0]\<close> at the end is \<^verbatim>\<open>NUL\<close>.
\<close>

definition nul :: char where "nul = CHR 0x00"

definition ch :: "string \<Rightarrow> char" where
  "ch s = (case s of [] \<Rightarrow> nul | c # cs \<Rightarrow> c)"

text \<open>
  The loop of \<^verbatim>\<open>sr_xpath_next_name\<close> from \<^verbatim>\<open>ptr\<close> on, with the module found so far (empty for
  \<^verbatim>\<open>mod_len\<close> 0) and the characters between \<^verbatim>\<open>xpath\<close>, the start of the name, and \<^verbatim>\<open>ptr\<close>. A \<^verbatim>\<open>:\<close>
  makes the characters before it the module and starts the name after it; the loop leaves
  at \<^verbatim>\<open>/\<close>, at the end, and, after moving on, at a \<^verbatim>\<open>[\<close>, which sets \<^verbatim>\<open>has_predicate\<close>. The
  result is the module, the name, \<^verbatim>\<open>has_predicate\<close> and the rest.
\<close>

fun name_scan :: "string \<Rightarrow> string \<Rightarrow> string \<Rightarrow> string \<times> string \<times> bool \<times> string" where
  "name_scan md acc [] = (md, acc, False, [])"
| "name_scan md acc (c # cs) =
     (if c = CHR ''/'' then (md, acc, False, c # cs)
      else if ch cs = CHR ''[''
      then (if c = CHR '':'' then (acc, [], True, cs) else (md, acc @ [c], True, cs))
      else if c = CHR '':'' then name_scan acc [] cs
      else name_scan md (acc @ [c]) cs)"

text \<open>
  \<^verbatim>\<open>sr_xpath_next_name(xpath, &mod, &mod_len, &name, &len, &double_slash, &has_predicate)\<close>.
\<close>

record xpath_name =
  xn_mod :: string
  xn_name :: string
  xn_double_slash :: bool
  xn_has_predicate :: bool
  xn_rest :: string

definition sr_xpath_next_name :: "string \<Rightarrow> sr_error_t + xpath_name" where
  "sr_xpath_next_name xpath =
     (if ch xpath \<noteq> CHR ''/'' then Inl Assert_failed
      else
        let double_slash = (ch (tl xpath) = CHR ''/'');
            start = (if double_slash then tl (tl xpath) else tl xpath)
        in case name_scan [] [] start of
             (md, name, has_predicate, rest) \<Rightarrow>
               Inr \<lparr>xn_mod = md, xn_name = name, xn_double_slash = double_slash,
                    xn_has_predicate = has_predicate, xn_rest = rest\<rparr>)"

text \<open>
  The loop of \<^verbatim>\<open>sr_xpath_next_predicate\<close> from \<^verbatim>\<open>ptr\<close> on, with the open quote (\<^verbatim>\<open>NUL\<close> for
  none): it leaves at the end and at a \<^verbatim>\<open>]\<close> outside quotes. The result is the quote at the
  end, the number of characters passed and the rest.
\<close>

fun pred_scan :: "char \<Rightarrow> string \<Rightarrow> char \<times> nat \<times> string" where
  "pred_scan quote [] = (quote, 0, [])"
| "pred_scan quote (c # cs) =
     (if quote = nul \<and> c = CHR '']'' then (quote, 0, c # cs)
      else
        case pred_scan (if quote \<noteq> nul \<and> c = quote then nul
                        else if quote = nul \<and> (c = CHR 0x27 \<or> c = CHR 0x22) then c
                        else quote) cs of
          (q, n, rest) \<Rightarrow> (q, Suc n, rest))"

text \<open>
  \<^verbatim>\<open>sr_xpath_next_predicate(xpath, &pred, &len, &has_predicate)\<close>. The function returns \<^verbatim>\<open>NULL\<close>
  for an open quote, and otherwise \<^verbatim>\<open>ptr + 1\<close>, which is behind the terminating \<^verbatim>\<open>NUL\<close> when
  the predicate has no \<^verbatim>\<open>]\<close>: that is the rest \<open>None\<close> here. The predicate is given as the
  pointer \<^verbatim>\<open>pred\<close>, that is the string from there on, and \<^verbatim>\<open>len\<close>. The source computes
  \<^verbatim>\<open>has_predicate\<close> as \<^verbatim>\<open>(ptr[0] && (ptr[0] + 1 == '[')) ? 1 : 0\<close>, with the character code of
  \<^verbatim>\<open>ptr[0]\<close> plus one and not the next character.
\<close>

datatype xpath_pred =
    Pred_null
  | Pred_next string nat bool "string option"

definition sr_xpath_next_predicate :: "string \<Rightarrow> sr_error_t + xpath_pred" where
  "sr_xpath_next_predicate xpath =
     (if ch xpath \<noteq> CHR ''['' then Inl Assert_failed
      else
        case pred_scan nul (tl xpath) of
          (quote, len, ptr) \<Rightarrow>
            if quote \<noteq> nul then Inr Pred_null
            else Inr (Pred_next (tl xpath) len
                        (ch ptr \<noteq> nul \<and> (of_char (ch ptr) :: nat) + 1 = of_char CHR ''['')
                        (if ptr = [] then None else Some (tl ptr))))"

subsection \<open>modinfo.c: \<^verbatim>\<open>sr_xpath_oper_data_predicate_required\<close>\<close>

text \<open>
  The first loop of \<^verbatim>\<open>sr_xpath_oper_data_predicate_required\<close>, over the node names: it
  returns 1 at the first difference, and it leaves when both predicates are at \<^verbatim>\<open>=\<close> or one
  of the lengths is 0. The result is \<open>None\<close> for \<^verbatim>\<open>return 1\<close>, and the two pointers and lengths
  otherwise.
\<close>

fun pred_names :: "string \<Rightarrow> nat \<Rightarrow> string \<Rightarrow> nat \<Rightarrow> (string \<times> nat \<times> string \<times> nat) option" where
  "pred_names pred1 (Suc len1) pred2 (Suc len2) =
     (if ch pred1 \<noteq> ch pred2 then None
      else if ch (tl pred1) = CHR ''='' \<and> ch (tl pred2) = CHR ''=''
      then Some (tl pred1, len1, tl pred2, len2)
      else pred_names (tl pred1) len1 (tl pred2) len2)"
| "pred_names pred1 len1 pred2 len2 = Some (pred1, len1, pred2, len2)"

text \<open>
  The loops over the values, \<^verbatim>\<open>while (len) { if (pred[0] == quot) break; ++pred; --len; }\<close>:
  the number of characters of the value and the length that is left.
\<close>

fun pred_value :: "char \<Rightarrow> string \<Rightarrow> nat \<Rightarrow> nat \<times> nat" where
  "pred_value quot pred 0 = (0, 0)"
| "pred_value quot pred (Suc len) =
     (if ch pred = quot then (0, Suc len)
      else case pred_value quot (tl pred) len of (n, left) \<Rightarrow> (Suc n, left))"

text \<open>
  \<^verbatim>\<open>sr_xpath_oper_data_predicate_required(pred1, len1, pred2, len2)\<close>: \<open>False\<close> is 0, not
  required. \<^verbatim>\<open>strncmp\<close> of two strings for \<open>n\<close> characters is 0 when their first \<open>n\<close>
  characters, as far as the strings go, are the same.
\<close>

definition sr_xpath_oper_data_predicate_required :: "string \<Rightarrow> nat \<Rightarrow> string \<Rightarrow> nat \<Rightarrow> bool" where
  "sr_xpath_oper_data_predicate_required pred1 len1 pred2 len2 =
     (case pred_names pred1 len1 pred2 len2 of
        None \<Rightarrow> True
      | Some (p1, l1, p2, l2) \<Rightarrow>
          if l1 = 0 \<or> l2 = 0 then True
          else if ch (tl p1) \<noteq> CHR 0x27 \<and> ch (tl p1) \<noteq> CHR 0x22 then True
          else if ch (tl p2) \<noteq> CHR 0x27 \<and> ch (tl p2) \<noteq> CHR 0x22 then True
          else if l1 = 1 \<or> l2 = 1 then True
          else
            let val1 = tl (tl p1); val2 = tl (tl p2) in
            case (pred_value (ch (tl p1)) val1 (l1 - 2), pred_value (ch (tl p2)) val2 (l2 - 2)) of
              ((n1, left1), (n2, left2)) \<Rightarrow>
                if left1 \<noteq> 1 \<or> left2 \<noteq> 1 then True
                else take (max n1 n2) val1 = take (max n1 n2) val2)"

subsection \<open>modinfo.c: \<^verbatim>\<open>sr_xpath_oper_data_required\<close>\<close>

text \<open>
  What a round of the \<^verbatim>\<open>do\<close> loop of \<^verbatim>\<open>sr_xpath_oper_data_required\<close> ends in: a \<^verbatim>\<open>return\<close>, a
  failed assertion or undefined behaviour, or the two pointers at the loop condition.
\<close>

datatype xpath_step = Step_return bool | Step_fail sr_error_t | Step_continue string string

text \<open>
  The loops \<^verbatim>\<open>while (has_pred1) xpath1 = sr_xpath_next_predicate(xpath1, NULL, NULL,
  &has_pred1)\<close> that skip leftover predicates. A pointer that is \<open>None\<close> is behind the end of
  its string. When the function returns \<^verbatim>\<open>NULL\<close> it leaves \<^verbatim>\<open>has_pred1\<close> set, and the next call
  fails its assertion.
\<close>

function pred_skip :: "bool \<Rightarrow> string option \<Rightarrow> sr_error_t + string option" where
  "pred_skip has_pred xpath =
     (if \<not> has_pred then Inr xpath
      else
        case xpath of
          None \<Rightarrow> Inl Undefined_behaviour
        | Some x \<Rightarrow>
            (case sr_xpath_next_predicate x of
               Inl e \<Rightarrow> Inl e
             | Inr Pred_null \<Rightarrow> Inl Assert_failed
             | Inr (Pred_next pred len has_pred' rest) \<Rightarrow> pred_skip has_pred' rest))"
  by pat_completeness auto
termination
proof (relation "measure (\<lambda>(has_pred, xpath). case xpath of None \<Rightarrow> 0 | Some x \<Rightarrow> Suc (length x))")
  show "wf (measure (\<lambda>(has_pred, xpath). case xpath of None \<Rightarrow> 0 | Some x \<Rightarrow> Suc (length x)))"
    by simp
next
  fix has_pred :: bool and xpath :: "string option" and x pred len has_pred' rest a
  assume a: "xpath = Some x" "sr_xpath_next_predicate x = Inr a"
    "a = Pred_next pred len has_pred' rest"
  have scan: "length (snd (snd (pred_scan q s))) \<le> length s" for q s
    by (induction q s rule: pred_scan.induct) (auto split: prod.splits)
  have "case rest of None \<Rightarrow> True | Some r \<Rightarrow> length r < length x"
    using a(2,3) scan[of nul "tl x"]
    by (cases x)
       (auto simp: sr_xpath_next_predicate_def ch_def nul_def split: prod.splits if_splits option.splits)
  then show "((has_pred', rest), has_pred, xpath)
      \<in> measure (\<lambda>(has_pred, xpath). case xpath of None \<Rightarrow> 0 | Some x \<Rightarrow> Suc (length x))"
    using a(1) by (auto split: option.splits)
qed

section \<open>Properties\<close>

subsection \<open>\<^verbatim>\<open>sr_chmodown\<close>: classification of a failed chown or chmod\<close>

lemma chmodown_err_code_always: "fst (chmodown_err_code errno) = SR_ERR_UNAUTHORIZED"
  by (simp add: chmodown_err_code_def EPERM_def Let_def)

text \<open>
  C9. When \<^verbatim>\<open>chown\<close> fails inside \<^verbatim>\<open>sr_chmodown\<close> with \<^verbatim>\<open>errno = ENOENT\<close>, which is neither
  \<^verbatim>\<open>EACCES\<close> nor \<^verbatim>\<open>EPERM\<close>, the returned error is \<^verbatim>\<open>SR_ERR_UNAUTHORIZED\<close> and not
  \<^verbatim>\<open>SR_ERR_INTERNAL\<close>: the second test of the classification assigns \<^verbatim>\<open>EPERM\<close> to \<^verbatim>\<open>errno\<close>
  instead of comparing with it, so the \<^verbatim>\<open>SR_ERR_INTERNAL\<close> branch is never taken.
\<close>

theorem sr_chmodown_enoent_unauthorized:
  "ENOENT \<noteq> EACCES \<and> ENOENT \<noteq> EPERM \<and>
   sr_chmodown \<lparr>get_pwd = (\<lambda>u. Inr 0), get_grp = (\<lambda>g. Inr 0),
                 chown_res = (\<lambda>p u g. Some ENOENT), chmod_res = (\<lambda>p m. None)\<rparr>
     ''/etc/sysrepo/data/m1.startup'' None None 384 = Some SR_ERR_UNAUTHORIZED"
  by (simp add: sr_chmodown_def chmodown_err_code_def EPERM_def ENOENT_def EACCES_def Let_def)

subsection \<open>\<^verbatim>\<open>sr_modinfo_add_mod\<close> and \<^verbatim>\<open>sr_modinfo_add_modules\<close>: frame, consistency, order\<close>

lemma and_then_Some_Inr:
  "and_then r f = Some (Inr y) \<longleftrightarrow> (\<exists>x. r = Some (Inr x) \<and> f x = Some (Inr y))"
  by (auto simp: and_then_def split: option.splits sum.splits)

lemma first_ly_mod_None: "first_ly_mod ly_mod mods = None \<longleftrightarrow> ly_mod \<notin> mi_ly_mod ` set mods"
  by (induction mods) auto

lemma first_ly_mod_Some:
  "first_ly_mod ly_mod mods = Some i \<Longrightarrow> i < length mods \<and> mi_ly_mod (mods ! i) = ly_mod"
  by (induction mods arbitrary: i) (auto split: if_splits)

lemma mod_search_absent:
  "mod_search ly_mod mods = Mod_absent \<Longrightarrow> ly_mod \<notin> mi_ly_mod ` set mods"
  by (auto simp: mod_search_def first_ly_mod_None split: option.splits if_splits)

lemma mod_search_found:
  "mod_search ly_mod mods = Mod_found i \<Longrightarrow> i < length mods \<and> mi_ly_mod (mods ! i) = ly_mod"
  by (auto simp: mod_search_def split: option.splits if_splits dest!: first_ly_mod_Some)

lemma add_mod_entry_present:
  assumes "add_mod_entry conn ly_mod mod_typ mod_req_deps mods = Entry_present prev cur_i shm_mod mods2"
  shows "sr_shmmain_find_module (conn_main_shm conn) (ly_name ly_mod) = Some shm_mod \<and>
         cur_i < length mods2 \<and> mi_state (mods2 ! cur_i) = mod_typ \<and> mi_ly_mod (mods2 ! cur_i) = ly_mod \<and>
         ((mod_search ly_mod mods = Mod_absent \<and> prev = 0 \<and> cur_i = length mods \<and>
           mods2 = mods @ [\<lparr>mi_shm_mod = shm_mod, mi_state = mod_typ, mi_ly_mod = ly_mod\<rparr>]) \<or>
          (mod_search ly_mod mods = Mod_found cur_i \<and> prev = mi_state (mods ! cur_i) \<and>
           mi_state (mods ! cur_i) AND MOD_INFO_TYPE_MASK < mod_typ \<and> MOD_INFO_DEP \<le> prev \<and>
           mods2 = mods[cur_i := (mods ! cur_i)\<lparr>mi_state := mod_typ\<rparr>]))"
  using assms
  by (auto simp: add_mod_entry_def MOD_INFO_DEP_def split: if_splits mod_search.splits option.splits
      dest!: mod_search_found)

lemma add_mod_entry_return:
  assumes "add_mod_entry conn ly_mod mod_typ mod_req_deps mods = Entry_return (Inr mods')"
  shows "mods' = mods"
  using assms
  by (auto simp: add_mod_entry_def split: if_splits mod_search.splits option.splits)

lemma mods_grow_refl: "mods_grow t mods mods"
  by (simp add: mods_grow_def)

lemma mods_grow_trans:
  assumes "mods_grow t a b" "mods_grow t b c"
  shows "mods_grow t a c"
  unfolding mods_grow_def
proof (intro conjI allI impI)
  show "length a \<le> length c" using assms by (simp add: mods_grow_def)
next
  fix j assume j: "j < length a"
  then have jb: "j < length b" using assms(1) by (simp add: mods_grow_def)
  show "mi_ly_mod (c ! j) = mi_ly_mod (a ! j)"
    using assms j jb by (simp add: mods_grow_def)
  show "mi_shm_mod (c ! j) = mi_shm_mod (a ! j)"
    using assms j jb by (simp add: mods_grow_def)
  have "mod_kind (a ! j) \<le> mod_kind (b ! j)" using assms(1) j by (simp add: mods_grow_def)
  moreover have "mod_kind (b ! j) \<le> mod_kind (c ! j)" using assms(2) jb by (simp add: mods_grow_def)
  ultimately show "mod_kind (a ! j) \<le> mod_kind (c ! j)" by simp
  assume k: "t \<le> mod_kind (a ! j)"
  then have "b ! j = a ! j" using assms(1) j by (simp add: mods_grow_def)
  then show "c ! j = a ! j" using assms(2) jb k by (simp add: mods_grow_def)
qed

lemma mods_grow_mono: "mods_grow t a b \<Longrightarrow> t \<le> t' \<Longrightarrow> mods_grow t' a b"
  by (auto simp: mods_grow_def)

lemma valid_typ_kind:
  "mod_typ = MOD_INFO_REQ \<or> mod_typ = MOD_INFO_DEP \<or> mod_typ = MOD_INFO_INV_DEP \<Longrightarrow>
   mod_typ AND MOD_INFO_TYPE_MASK = mod_typ"
  by (auto simp: MOD_INFO_REQ_def MOD_INFO_DEP_def MOD_INFO_INV_DEP_def MOD_INFO_TYPE_MASK_def)

lemma add_mod_entry_valid:
  "add_mod_entry conn ly_mod mod_typ mod_req_deps mods = Entry_present prev cur_i shm_mod mods2 \<Longrightarrow>
   mod_typ = MOD_INFO_REQ \<or> mod_typ = MOD_INFO_DEP \<or> mod_typ = MOD_INFO_INV_DEP"
  by (auto simp: add_mod_entry_def split: if_splits)

lemma add_mod_entry_grow:
  assumes "add_mod_entry conn ly_mod mod_typ mod_req_deps mods = Entry_present prev cur_i shm_mod mods2"
  shows "mods_grow mod_typ mods mods2"
proof -
  note p = add_mod_entry_present[OF assms]
  from p show ?thesis
  proof (elim conjE disjE)
    assume "mods2 = mods @ [\<lparr>mi_shm_mod = shm_mod, mi_state = mod_typ, mi_ly_mod = ly_mod\<rparr>]"
    then show ?thesis by (simp add: mods_grow_def nth_append)
  next
    assume f: "mod_search ly_mod mods = Mod_found cur_i"
      and w: "mi_state (mods ! cur_i) AND MOD_INFO_TYPE_MASK < mod_typ"
      and m: "mods2 = mods[cur_i := (mods ! cur_i)\<lparr>mi_state := mod_typ\<rparr>]"
    have "cur_i < length mods" using mod_search_found[OF f] by simp
    moreover have "mod_typ AND MOD_INFO_TYPE_MASK = mod_typ"
      using valid_typ_kind add_mod_entry_valid[OF assms] by simp
    ultimately show ?thesis
      using m w by (auto simp: mods_grow_def nth_list_update mod_kind_def)
  qed
qed

lemma ly_ctx_get_module_implemented_Some:
  "ly_ctx_get_module_implemented ctx name = Some m \<Longrightarrow> m \<in> set ctx \<and> ly_implemented m \<and> ly_name m = name"
  by (auto simp: ly_ctx_get_module_implemented_def find_Some_iff)

lemma add_data_deps_grow:
  assumes "\<And>m mods mods'. add_dep m mods = Some (Inr mods') \<Longrightarrow> mods_grow t mods mods'"
    and "add_data_deps add_dep ctx deps mods = Some (Inr mods')"
  shows "mods_grow t mods mods'"
  using assms(2)
proof (induction deps arbitrary: mods)
  case Nil
  then show ?case by (simp add: mods_grow_refl)
next
  case (Cons dep deps)
  show ?case
  proof (cases "dep_type dep = SR_DEP_INSTID")
    case True
    then show ?thesis using Cons by simp
  next
    case False
    then obtain m mods1 where "add_dep m mods = Some (Inr mods1)"
      and "add_data_deps add_dep ctx deps mods1 = Some (Inr mods')"
      using Cons.prems by (auto simp: and_then_Some_Inr split: option.splits)
    then show ?thesis
      using Cons.IH assms(1) mods_grow_trans by blast
  qed
qed

lemma add_inv_data_deps_grow:
  assumes "\<And>m mods mods'. add_dep m mods = Some (Inr mods') \<Longrightarrow> mods_grow t mods mods'"
    and "add_inv_data_deps add_dep ctx deps mods = Some (Inr mods')"
  shows "mods_grow t mods mods'"
  using assms(2)
proof (induction deps arbitrary: mods)
  case Nil
  then show ?case by (simp add: mods_grow_refl)
next
  case (Cons dep deps)
  then obtain m mods1 where "add_dep m mods = Some (Inr mods1)"
    and "add_inv_data_deps add_dep ctx deps mods1 = Some (Inr mods')"
    by (auto simp: and_then_Some_Inr split: option.splits)
  then show ?case
    using Cons.IH assms(1) mods_grow_trans by blast
qed

lemma sr_modinfo_add_mod_grow:
  "sr_modinfo_add_mod fuel conn ly_mod mod_typ mod_req_deps mods = Some (Inr mods') \<Longrightarrow>
   mods_grow mod_typ mods mods'"
proof (induction fuel arbitrary: ly_mod mod_typ mods mods')
  case 0
  then show ?case by simp
next
  case (Suc fuel)
  show ?case
  proof (cases "add_mod_entry conn ly_mod mod_typ mod_req_deps mods")
    case Entry_loops
    then show ?thesis using Suc.prems by simp
  next
    case (Entry_return r)
    then have "mods' = mods" using Suc.prems add_mod_entry_return by auto
    then show ?thesis by (simp add: mods_grow_refl)
  next
    case (Entry_present prev cur_i shm_mod mods2)
    note p = add_mod_entry_present[OF Entry_present]
    have vt: "mod_typ = MOD_INFO_REQ \<or> mod_typ = MOD_INFO_DEP \<or> mod_typ = MOD_INFO_INV_DEP"
      using add_mod_entry_valid[OF Entry_present] .
    have g2: "mods_grow mod_typ mods mods2" using add_mod_entry_grow[OF Entry_present] .
    have dep_le: "MOD_INFO_DEP \<le> mod_typ"
      using vt by (auto simp: MOD_INFO_REQ_def MOD_INFO_DEP_def MOD_INFO_INV_DEP_def)
    show ?thesis
    proof (cases "mod_req_deps AND MOD_INFO_DEP = 0 \<or> mi_state (mods2 ! cur_i) < MOD_INFO_INV_DEP")
      case True
      then have "mods' = mods2" using Suc.prems Entry_present by auto
      then show ?thesis using g2 by simp
    next
      case False
      then obtain mods3 where
        d: "(if prev < MOD_INFO_INV_DEP
               then add_data_deps
                      (\<lambda>dep_mod. sr_modinfo_add_mod fuel conn dep_mod MOD_INFO_DEP mod_req_deps)
                      (conn_ly_ctx conn) (shm_data_deps (conn_main_shm conn ! shm_mod)) mods2
               else Some (Inr mods2)) = Some (Inr mods3)"
        and i: "(if mod_req_deps AND MOD_INFO_INV_DEP = 0 \<or> mi_state (mods3 ! cur_i) < MOD_INFO_REQ
                 then Some (Inr mods3)
                 else if prev < MOD_INFO_REQ
                 then add_inv_data_deps
                        (\<lambda>dep_mod. sr_modinfo_add_mod fuel conn dep_mod MOD_INFO_INV_DEP mod_req_deps)
                        (conn_ly_ctx conn) (shm_inv_data_deps (conn_main_shm conn ! shm_mod)) mods3
                 else Some (Inr mods3)) = Some (Inr mods')"
        using Suc.prems Entry_present by (auto simp: and_then_Some_Inr)
      have g3d: "mods_grow MOD_INFO_DEP mods2 mods3"
        using d add_data_deps_grow[of "\<lambda>dep_mod. sr_modinfo_add_mod fuel conn dep_mod MOD_INFO_DEP mod_req_deps" MOD_INFO_DEP]
          Suc.IH
        by (auto simp: mods_grow_refl split: if_splits)
      then have g3: "mods_grow mod_typ mods2 mods3" using dep_le mods_grow_mono by blast
      have st3: "mi_state (mods3 ! cur_i) = mod_typ"
      proof -
        have "mod_kind (mods2 ! cur_i) = mod_typ"
          using p vt by (simp add: mod_kind_def valid_typ_kind)
        then have "mods3 ! cur_i = mods2 ! cur_i"
          using g3d p dep_le by (simp add: mods_grow_def)
        then show ?thesis using p by simp
      qed
      show ?thesis
      proof (cases "mod_req_deps AND MOD_INFO_INV_DEP = 0 \<or> mi_state (mods3 ! cur_i) < MOD_INFO_REQ")
        case True
        then have "mods' = mods3" using i by simp
        then show ?thesis using g2 g3 mods_grow_trans by blast
      next
        case False
        then have req: "mod_typ = MOD_INFO_REQ"
          using st3 vt by (auto simp: MOD_INFO_REQ_def MOD_INFO_DEP_def MOD_INFO_INV_DEP_def)
        have "mods_grow MOD_INFO_INV_DEP mods3 mods'"
          using i False add_inv_data_deps_grow[of "\<lambda>dep_mod. sr_modinfo_add_mod fuel conn dep_mod MOD_INFO_INV_DEP mod_req_deps" MOD_INFO_INV_DEP]
            Suc.IH
          by (auto simp: mods_grow_refl split: if_splits)
        then have "mods_grow mod_typ mods3 mods'"
          using req mods_grow_mono by (auto simp: MOD_INFO_REQ_def MOD_INFO_INV_DEP_def)
        then show ?thesis using g2 g3 mods_grow_trans by blast
      qed
    qed
  qed
qed

lemma sr_shmmain_find_module_Some:
  "sr_shmmain_find_module shm name = Some i \<Longrightarrow> i < length shm \<and> shm_name (shm ! i) = name"
  by (induction shm arbitrary: i) (auto split: if_splits)

lemma modinfo_consistent_entry:
  assumes c: "modinfo_consistent conn mods"
    and e: "add_mod_entry conn ly_mod mod_typ mod_req_deps mods = Entry_present prev cur_i shm_mod mods2"
    and m: "ly_mod \<in> impl_mods conn"
  shows "modinfo_consistent conn mods2"
proof -
  note p = add_mod_entry_present[OF e]
  from p show ?thesis
  proof (elim conjE disjE)
    assume a: "mod_search ly_mod mods = Mod_absent"
      and m2: "mods2 = mods @ [\<lparr>mi_shm_mod = shm_mod, mi_state = mod_typ, mi_ly_mod = ly_mod\<rparr>]"
      and f: "sr_shmmain_find_module (conn_main_shm conn) (ly_name ly_mod) = Some shm_mod"
    have "ly_mod \<notin> mi_ly_mod ` set mods" using mod_search_absent[OF a] .
    then show ?thesis using c m m2 f by (auto simp: modinfo_consistent_def)
  next
    assume f: "mod_search ly_mod mods = Mod_found cur_i"
      and m2: "mods2 = mods[cur_i := (mods ! cur_i)\<lparr>mi_state := mod_typ\<rparr>]"
    have lt: "cur_i < length mods" using mod_search_found[OF f] by simp
    have "map mi_ly_mod mods2 = map mi_ly_mod mods"
      using m2 lt by (simp add: map_update list_update_same_conv)
    moreover have "\<forall>e \<in> set mods2. mi_ly_mod e \<in> impl_mods conn \<and>
         sr_shmmain_find_module (conn_main_shm conn) (ly_name (mi_ly_mod e)) = Some (mi_shm_mod e)"
    proof
      fix e assume "e \<in> set mods2"
      then have "e \<in> set mods \<or> e = (mods ! cur_i)\<lparr>mi_state := mod_typ\<rparr>"
        using m2 set_update_subset_insert[of mods cur_i] by auto
      moreover have "mods ! cur_i \<in> set mods" using lt by simp
      ultimately show "mi_ly_mod e \<in> impl_mods conn \<and>
         sr_shmmain_find_module (conn_main_shm conn) (ly_name (mi_ly_mod e)) = Some (mi_shm_mod e)"
        using c by (auto simp: modinfo_consistent_def)
    qed
    ultimately show ?thesis using c by (simp add: modinfo_consistent_def)
  qed
qed

lemma add_data_deps_consistent:
  assumes "\<And>m mods mods'. add_dep m mods = Some (Inr mods') \<Longrightarrow> m \<in> impl_mods conn \<Longrightarrow>
             modinfo_consistent conn mods \<Longrightarrow> modinfo_consistent conn mods'"
    and "add_data_deps add_dep (conn_ly_ctx conn) deps mods = Some (Inr mods')"
    and "modinfo_consistent conn mods"
  shows "modinfo_consistent conn mods'"
  using assms(2,3)
proof (induction deps arbitrary: mods)
  case Nil
  then show ?case by simp
next
  case (Cons dep deps)
  show ?case
  proof (cases "dep_type dep = SR_DEP_INSTID")
    case True
    then show ?thesis using Cons by simp
  next
    case False
    then obtain m mods1 where l: "ly_ctx_get_module_implemented (conn_ly_ctx conn) (dep_module dep) = Some m"
      and "add_dep m mods = Some (Inr mods1)"
      and "add_data_deps add_dep (conn_ly_ctx conn) deps mods1 = Some (Inr mods')"
      using Cons.prems by (auto simp: and_then_Some_Inr split: option.splits)
    moreover have "m \<in> impl_mods conn"
      using ly_ctx_get_module_implemented_Some[OF l] by (simp add: impl_mods_def)
    ultimately show ?thesis
      using Cons.IH Cons.prems(2) assms(1) by blast
  qed
qed

lemma add_inv_data_deps_consistent:
  assumes "\<And>m mods mods'. add_dep m mods = Some (Inr mods') \<Longrightarrow> m \<in> impl_mods conn \<Longrightarrow>
             modinfo_consistent conn mods \<Longrightarrow> modinfo_consistent conn mods'"
    and "add_inv_data_deps add_dep (conn_ly_ctx conn) deps mods = Some (Inr mods')"
    and "modinfo_consistent conn mods"
  shows "modinfo_consistent conn mods'"
  using assms(2,3)
proof (induction deps arbitrary: mods)
  case Nil
  then show ?case by simp
next
  case (Cons dep deps)
  then obtain m mods1 where l: "ly_ctx_get_module_implemented (conn_ly_ctx conn) dep = Some m"
    and "add_dep m mods = Some (Inr mods1)"
    and "add_inv_data_deps add_dep (conn_ly_ctx conn) deps mods1 = Some (Inr mods')"
    by (auto simp: and_then_Some_Inr split: option.splits)
  moreover have "m \<in> impl_mods conn"
    using ly_ctx_get_module_implemented_Some[OF l] by (simp add: impl_mods_def)
  ultimately show ?case
    using Cons.IH Cons.prems(2) assms(1) by blast
qed

lemma sr_modinfo_add_mod_consistent:
  "sr_modinfo_add_mod fuel conn ly_mod mod_typ mod_req_deps mods = Some (Inr mods') \<Longrightarrow>
   ly_mod \<in> impl_mods conn \<Longrightarrow> modinfo_consistent conn mods \<Longrightarrow> modinfo_consistent conn mods'"
proof (induction fuel arbitrary: ly_mod mod_typ mods mods')
  case 0
  then show ?case by simp
next
  case (Suc fuel)
  show ?case
  proof (cases "add_mod_entry conn ly_mod mod_typ mod_req_deps mods")
    case Entry_loops
    then show ?thesis using Suc.prems by simp
  next
    case (Entry_return r)
    then have "mods' = mods" using Suc.prems add_mod_entry_return by auto
    then show ?thesis using Suc.prems by simp
  next
    case (Entry_present prev cur_i shm_mod mods2)
    have c2: "modinfo_consistent conn mods2"
      using modinfo_consistent_entry[OF Suc.prems(3) Entry_present Suc.prems(2)] .
    show ?thesis
    proof (cases "mod_req_deps AND MOD_INFO_DEP = 0 \<or> mi_state (mods2 ! cur_i) < MOD_INFO_INV_DEP")
      case True
      then have "mods' = mods2" using Suc.prems Entry_present by auto
      then show ?thesis using c2 by simp
    next
      case False
      then obtain mods3 where
        d: "(if prev < MOD_INFO_INV_DEP
               then add_data_deps
                      (\<lambda>dep_mod. sr_modinfo_add_mod fuel conn dep_mod MOD_INFO_DEP mod_req_deps)
                      (conn_ly_ctx conn) (shm_data_deps (conn_main_shm conn ! shm_mod)) mods2
               else Some (Inr mods2)) = Some (Inr mods3)"
        and i: "(if mod_req_deps AND MOD_INFO_INV_DEP = 0 \<or> mi_state (mods3 ! cur_i) < MOD_INFO_REQ
                 then Some (Inr mods3)
                 else if prev < MOD_INFO_REQ
                 then add_inv_data_deps
                        (\<lambda>dep_mod. sr_modinfo_add_mod fuel conn dep_mod MOD_INFO_INV_DEP mod_req_deps)
                        (conn_ly_ctx conn) (shm_inv_data_deps (conn_main_shm conn ! shm_mod)) mods3
                 else Some (Inr mods3)) = Some (Inr mods')"
        using Suc.prems Entry_present by (auto simp: and_then_Some_Inr)
      have c3: "modinfo_consistent conn mods3"
        using d c2 add_data_deps_consistent[of "\<lambda>dep_mod. sr_modinfo_add_mod fuel conn dep_mod MOD_INFO_DEP mod_req_deps" conn]
          Suc.IH
        by (auto split: if_splits)
      show ?thesis
        using i c3 add_inv_data_deps_consistent[of "\<lambda>dep_mod. sr_modinfo_add_mod fuel conn dep_mod MOD_INFO_INV_DEP mod_req_deps" conn]
          Suc.IH
        by (auto split: if_splits)
    qed
  qed
qed

lemma add_mod_set_props:
  assumes "add_mod_set fuel conn mod_typ mod_deps ms mods = Some (Inr mods')"
    and "set ms \<subseteq> impl_mods conn" and "modinfo_consistent conn mods"
  shows "modinfo_consistent conn mods' \<and> mods_grow mod_typ mods mods'"
  using assms
proof (induction ms arbitrary: mods)
  case Nil
  then show ?case by (simp add: mods_grow_refl)
next
  case (Cons m ms)
  then obtain mods1 where a: "sr_modinfo_add_mod fuel conn m mod_typ mod_deps mods = Some (Inr mods1)"
    and b: "add_mod_set fuel conn mod_typ mod_deps ms mods1 = Some (Inr mods')"
    by (auto simp: and_then_Some_Inr)
  have c1: "modinfo_consistent conn mods1"
    using sr_modinfo_add_mod_consistent[OF a] Cons.prems by simp
  have g1: "mods_grow mod_typ mods mods1" using sr_modinfo_add_mod_grow[OF a] .
  have "set ms \<subseteq> impl_mods conn" using Cons.prems(2) by simp
  from Cons.IH[OF b this c1]
  show ?case using mods_grow_trans[OF g1] by blast
qed

lemma add_all_mods_props:
  assumes "add_all_mods fuel conn mod_typ mod_deps ms mods = Some (Inr mods')"
    and "set ms \<subseteq> set (conn_ly_ctx conn)" and "modinfo_consistent conn mods"
  shows "modinfo_consistent conn mods' \<and> mods_grow mod_typ mods mods'"
  using assms
proof (induction ms arbitrary: mods)
  case Nil
  then show ?case by (simp add: mods_grow_refl)
next
  case (Cons m ms)
  show ?case
  proof (cases "\<not> ly_implemented m \<or> ly_name m = SR_YANG_MOD")
    case True
    then show ?thesis using Cons by simp
  next
    case False
    then obtain mods1 where a: "sr_modinfo_add_mod fuel conn m mod_typ mod_deps mods = Some (Inr mods1)"
      and b: "add_all_mods fuel conn mod_typ mod_deps ms mods1 = Some (Inr mods')"
      using Cons.prems by (auto simp: and_then_Some_Inr)
    have "m \<in> impl_mods conn" using False Cons.prems(2) by (simp add: impl_mods_def)
    then have c1: "modinfo_consistent conn mods1"
      using sr_modinfo_add_mod_consistent[OF a] Cons.prems by simp
    have g1: "mods_grow mod_typ mods mods1" using sr_modinfo_add_mod_grow[OF a] .
    have "set ms \<subseteq> set (conn_ly_ctx conn)" using Cons.prems(2) by simp
    from Cons.IH[OF b this c1]
    show ?thesis using mods_grow_trans[OF g1] by blast
  qed
qed

lemma mods_grow_same_length:
  assumes "mods_grow t mods mods'" "length mods = length mods'"
  shows "map mi_shm_mod mods' = map mi_shm_mod mods"
proof (rule nth_equalityI)
  show "length (map mi_shm_mod mods') = length (map mi_shm_mod mods)" using assms by simp
next
  fix j assume "j < length (map mi_shm_mod mods')"
  then have "j < length mods" using assms by simp
  then show "map mi_shm_mod mods' ! j = map mi_shm_mod mods ! j"
    using assms by (simp add: mods_grow_def)
qed

lemma perm_check_loop_end:
  "\<not> i < length mods \<Longrightarrow> perm_check_loop env wr strict i mods = ([], Inr mods)"
  by (subst perm_check_loop.simps) simp

lemma perm_check_loop_skip:
  "i < length mods \<Longrightarrow> \<not> mi_state (mods ! i) AND (MOD_INFO_REQ OR MOD_INFO_CHANGED) \<noteq> 0 \<Longrightarrow>
   perm_check_loop env wr strict i mods = perm_check_loop env wr strict (Suc i) mods"
  by (subst perm_check_loop.simps) simp

lemma perm_check_loop_err:
  "i < length mods \<Longrightarrow> mi_state (mods ! i) AND (MOD_INFO_REQ OR MOD_INFO_CHANGED) \<noteq> 0 \<Longrightarrow>
   sr_perm_check env (ly_name (mi_ly_mod (mods ! i))) wr (\<not> strict) = (c, Inl e) \<Longrightarrow>
   perm_check_loop env wr strict i mods = (c, Inl e)"
  by (subst perm_check_loop.simps) simp

lemma perm_check_loop_remove:
  "i < length mods \<Longrightarrow> mi_state (mods ! i) AND (MOD_INFO_REQ OR MOD_INFO_CHANGED) \<noteq> 0 \<Longrightarrow>
   sr_perm_check env (ly_name (mi_ly_mod (mods ! i))) wr (\<not> strict) = (c, Inr ha) \<Longrightarrow>
   \<not> strict \<and> \<not> ha \<Longrightarrow>
   perm_check_loop env wr strict i mods =
     (c @ fst (perm_check_loop env wr strict i (take i mods @ drop (Suc i) mods)),
      snd (perm_check_loop env wr strict i (take i mods @ drop (Suc i) mods)))"
  by (subst perm_check_loop.simps) (simp add: case_prod_beta)

lemma perm_check_loop_keep:
  "i < length mods \<Longrightarrow> mi_state (mods ! i) AND (MOD_INFO_REQ OR MOD_INFO_CHANGED) \<noteq> 0 \<Longrightarrow>
   sr_perm_check env (ly_name (mi_ly_mod (mods ! i))) wr (\<not> strict) = (c, Inr ha) \<Longrightarrow>
   \<not> (\<not> strict \<and> \<not> ha) \<Longrightarrow>
   perm_check_loop env wr strict i mods =
     (c @ fst (perm_check_loop env wr strict (Suc i) mods),
      snd (perm_check_loop env wr strict (Suc i) mods))"
  by (subst perm_check_loop.simps) (auto simp: case_prod_beta)

lemma perm_check_loop_filter:
  "snd (perm_check_loop env wr strict i mods) = Inr mods' \<Longrightarrow>
   mods' = take i mods @ filter (perm_keep env wr strict) (drop i mods)"
proof (induction "length mods - i" arbitrary: i mods rule: less_induct)
  case less
  show ?case
  proof (cases "i < length mods")
    case False
    then show ?thesis using less.prems by (simp add: perm_check_loop_end)
  next
    case True
    then have dr: "drop i mods = mods ! i # drop (Suc i) mods"
      by (simp add: Cons_nth_drop_Suc)
    show ?thesis
    proof (cases "mi_state (mods ! i) AND (MOD_INFO_REQ OR MOD_INFO_CHANGED) \<noteq> 0")
      case False
      then have "snd (perm_check_loop env wr strict (Suc i) mods) = Inr mods'"
        using True less.prems by (simp add: perm_check_loop_skip)
      then have "mods' = take (Suc i) mods @ filter (perm_keep env wr strict) (drop (Suc i) mods)"
        using less.hyps[of mods "Suc i"] True by simp
      moreover have "perm_keep env wr strict (mods ! i)" using False by (simp add: perm_keep_def)
      ultimately show ?thesis using dr True by (simp add: take_Suc_conv_app_nth)
    next
      case chk: True
      obtain c r where pc: "sr_perm_check env (ly_name (mi_ly_mod (mods ! i))) wr (\<not> strict) = (c, r)"
        by (cases "sr_perm_check env (ly_name (mi_ly_mod (mods ! i))) wr (\<not> strict)") auto
      show ?thesis
      proof (cases r)
        case (Inl e)
        then show ?thesis
          using perm_check_loop_err[OF True chk, of env wr strict c e] pc less.prems by simp
      next
        case (Inr ha)
        show ?thesis
        proof (cases "\<not> strict \<and> \<not> ha")
          case rm: True
          let ?mods' = "take i mods @ drop (Suc i) mods"
          have d': "drop i ?mods' = drop (Suc i) mods" and t': "take i ?mods' = take i mods"
            using \<open>i < length mods\<close> by simp_all
          have "snd (perm_check_loop env wr strict i ?mods') = Inr mods'"
            using perm_check_loop_remove[OF True chk, of env wr strict c ha] pc Inr rm less.prems
            by simp
          then have "mods' = take i ?mods' @ filter (perm_keep env wr strict) (drop i ?mods')"
            using less.hyps[of ?mods' i] True by simp
          moreover have "\<not> perm_keep env wr strict (mods ! i)"
            using chk pc Inr rm by (simp add: perm_keep_def)
          ultimately show ?thesis using dr d' t' by simp
        next
          case keep: False
          have "snd (perm_check_loop env wr strict (Suc i) mods) = Inr mods'"
            using perm_check_loop_keep[OF True chk, of env wr strict c ha] pc Inr keep less.prems
            by simp
          then have "mods' = take (Suc i) mods @ filter (perm_keep env wr strict) (drop (Suc i) mods)"
            using less.hyps[of mods "Suc i"] True by simp
          moreover have "perm_keep env wr strict (mods ! i)"
          proof (cases strict)
            case True
            then show ?thesis by (simp add: perm_keep_def)
          next
            case False
            then have "ha" using keep by simp
            then show ?thesis using pc Inr False by (simp add: perm_keep_def)
          qed
          ultimately show ?thesis using dr True by (simp add: take_Suc_conv_app_nth)
        qed
      qed
    qed
  qed
qed

lemma sr_modinfo_perm_check_filter:
  assumes "snd (sr_modinfo_perm_check env mod_info wr strict) = Inr mod_info'"
  shows "\<exists>P. mod_info' = mod_info\<lparr>mi_mods := filter P (mi_mods mod_info)\<rparr>"
proof -
  obtain c r where l: "perm_check_loop env wr strict 0 (mi_mods mod_info) = (c, r)"
    by (cases "perm_check_loop env wr strict 0 (mi_mods mod_info)") auto
  then obtain mods' where r: "r = Inr mods'" and m: "mod_info' = mod_info\<lparr>mi_mods := mods'\<rparr>"
    using assms by (auto simp: sr_modinfo_perm_check_def split: if_splits sum.splits)
  have "mods' = filter (perm_keep env wr strict) (mi_mods mod_info)"
    using perm_check_loop_filter[of env wr strict 0 "mi_mods mod_info" mods'] l r by simp
  then show ?thesis using m by blast
qed

lemma set_qsort_insert: "set (qsort_insert cmp x xs) = insert x (set xs)"
  by (induction xs) auto

lemma set_qsort: "set (qsort cmp xs) = set xs"
  by (induction xs) (auto simp: qsort_def set_qsort_insert)

lemma length_qsort_insert: "length (qsort_insert cmp x xs) = Suc (length xs)"
  by (induction xs) auto

lemma length_qsort: "length (qsort cmp xs) = length xs"
  by (induction xs) (auto simp: qsort_def length_qsort_insert)

lemma sorted_qsort_insert:
  "sorted_wrt (\<lambda>a b. mi_shm_mod a \<le> mi_shm_mod b) xs \<Longrightarrow>
   sorted_wrt (\<lambda>a b. mi_shm_mod a \<le> mi_shm_mod b) (qsort_insert sr_modinfo_qsort_cmp x xs)"
  by (induction xs) (auto simp: set_qsort_insert sr_modinfo_qsort_cmp_def split: if_splits)

lemma sorted_qsort:
  "sorted_wrt (\<lambda>a b. mi_shm_mod a \<le> mi_shm_mod b) (qsort sr_modinfo_qsort_cmp xs)"
proof (induction xs)
  case Nil
  then show ?case by (simp add: qsort_def)
next
  case (Cons x xs)
  then show ?case using sorted_qsort_insert[of "qsort sr_modinfo_qsort_cmp xs" x]
    by (simp add: qsort_def)
qed

lemma distinct_qsort_insert:
  "distinct (map f (qsort_insert cmp x xs)) = distinct (map f (x # xs))"
  by (induction xs) (auto simp: set_qsort_insert)

lemma distinct_qsort: "distinct (map f (qsort cmp xs)) = distinct (map f xs)"
  by (induction xs) (auto simp: qsort_def distinct_qsort_insert set_qsort_insert set_qsort[unfolded qsort_def])

lemma strict_sorted_shm:
  assumes "sorted_wrt (\<lambda>a b. mi_shm_mod a \<le> mi_shm_mod b) xs" "distinct (map mi_shm_mod xs)"
  shows "sorted_wrt (<) (map mi_shm_mod xs)"
  using assms by (induction xs) (auto simp: sorted_wrt_map intro: le_neq_trans)

lemma consistent_distinct_shm:
  assumes c: "modinfo_consistent conn mods" and u: "inj_on ly_name (impl_mods conn)"
  shows "distinct (map mi_shm_mod mods)"
proof -
  have "inj_on mi_shm_mod (set mods)"
  proof (rule inj_onI)
    fix a b assume a: "a \<in> set mods" and b: "b \<in> set mods" and eq: "mi_shm_mod a = mi_shm_mod b"
    have fa: "sr_shmmain_find_module (conn_main_shm conn) (ly_name (mi_ly_mod a)) = Some (mi_shm_mod a)"
      and fb: "sr_shmmain_find_module (conn_main_shm conn) (ly_name (mi_ly_mod b)) = Some (mi_shm_mod b)"
      using c a b by (auto simp: modinfo_consistent_def)
    have "ly_name (mi_ly_mod a) = ly_name (mi_ly_mod b)"
      using sr_shmmain_find_module_Some[OF fa] sr_shmmain_find_module_Some[OF fb] eq by simp
    then have "mi_ly_mod a = mi_ly_mod b"
      using u c a b by (auto simp: modinfo_consistent_def inj_on_def)
    then show "a = b"
      using c a b by (auto simp: modinfo_consistent_def distinct_map inj_on_def)
  qed
  moreover have "distinct mods" using c by (auto simp: modinfo_consistent_def distinct_map)
  ultimately show ?thesis by (simp add: distinct_map)
qed

lemma modinfo_consistent_filter:
  "modinfo_consistent conn mods \<Longrightarrow> modinfo_consistent conn (filter P mods)"
  by (auto simp: modinfo_consistent_def distinct_map_filter)

text \<open>
  C1. When \<^verbatim>\<open>sr_modinfo_add_modules\<close> has added the modules with their dependencies, checked
  the permissions and sorted the array (the function's first part, through \<^verbatim>\<open>qsort\<close>), the
  array is strictly ascending in the address of the descriptors, so no descriptor occurs
  twice. This holds for every seed set of implemented modules, every dependency option and
  every option set, on a module-info set that was consistent and strictly ascending
  before the call (the empty set is), in a context where a name has one implemented
  module.
\<close>

theorem sr_modinfo_add_modules_sorted:
  assumes run: "sr_modinfo_add_modules_resolve fuel conn env mod_info mod_set mod_deps mi_opts =
                  Some (Inr mod_info')"
    and seeds: "set mod_set \<subseteq> impl_mods conn"
    and uniq: "inj_on ly_name (impl_mods conn)"
    and cons: "modinfo_consistent conn (mi_mods mod_info)"
    and srt: "sorted_wrt (<) (map mi_shm_mod (mi_mods mod_info))"
  shows "sorted_wrt (<) (map mi_shm_mod (mi_mods mod_info')) \<and>
         distinct (map mi_shm_mod (mi_mods mod_info'))"
proof -
  let ?t = "if SR_MI_MOD_DEPS mi_opts then MOD_INFO_DEP else MOD_INFO_REQ"
  obtain mods where
    add: "(if mod_set \<noteq> []
           then add_mod_set fuel conn ?t mod_deps mod_set (mi_mods mod_info)
           else add_all_mods fuel conn ?t 0 (conn_ly_ctx conn) (mi_mods mod_info)) = Some (Inr mods)"
    and rest: "(if length (mi_mods mod_info) = length mods then Some (Inr (mod_info\<lparr>mi_mods := mods\<rparr>))
             else
               and_then
                 (if \<not> SR_MI_PERM_NO mi_opts
                  then Some (snd (sr_modinfo_perm_check env (mod_info\<lparr>mi_mods := mods\<rparr>)
                                    (SR_MI_PERM_WRITE mi_opts) (SR_MI_PERM_STRICT mi_opts)))
                  else Some (Inr (mod_info\<lparr>mi_mods := mods\<rparr>)))
                 (\<lambda>mod_info'.
                    Some (Inr (mod_info'\<lparr>mi_mods := qsort sr_modinfo_qsort_cmp (mi_mods mod_info')\<rparr>))))
             = Some (Inr mod_info')"
  proof -
    have "and_then
          (if mod_set \<noteq> []
           then add_mod_set fuel conn ?t mod_deps mod_set (mi_mods mod_info)
           else add_all_mods fuel conn ?t 0 (conn_ly_ctx conn) (mi_mods mod_info))
          (\<lambda>mods.
             if length (mi_mods mod_info) = length mods then Some (Inr (mod_info\<lparr>mi_mods := mods\<rparr>))
             else
               and_then
                 (if \<not> SR_MI_PERM_NO mi_opts
                  then Some (snd (sr_modinfo_perm_check env (mod_info\<lparr>mi_mods := mods\<rparr>)
                                    (SR_MI_PERM_WRITE mi_opts) (SR_MI_PERM_STRICT mi_opts)))
                  else Some (Inr (mod_info\<lparr>mi_mods := mods\<rparr>)))
                 (\<lambda>mod_info'.
                    Some (Inr (mod_info'\<lparr>mi_mods := qsort sr_modinfo_qsort_cmp (mi_mods mod_info')\<rparr>))))
          = Some (Inr mod_info')"
      using run
      by (simp add: sr_modinfo_add_modules_resolve_def Let_def split: if_splits)
    then show ?thesis
      unfolding and_then_Some_Inr[of "if mod_set \<noteq> [] then _ else _"] using that by blast
  qed
  have props: "modinfo_consistent conn mods \<and> mods_grow ?t (mi_mods mod_info) mods"
  proof (cases "mod_set \<noteq> []")
    case True
    then show ?thesis using add add_mod_set_props[OF _ seeds cons] by simp
  next
    case False
    then show ?thesis using add add_all_mods_props[OF _ _ cons] by simp
  qed
  show ?thesis
  proof (cases "length (mi_mods mod_info) = length mods")
    case True
    then have "mod_info' = mod_info\<lparr>mi_mods := mods\<rparr>" using rest by simp
    moreover have "map mi_shm_mod mods = map mi_shm_mod (mi_mods mod_info)"
      using mods_grow_same_length props True by blast
    ultimately show ?thesis using srt strict_sorted_iff[of "map mi_shm_mod mods"] by (simp add: strict_sorted_iff)
  next
    case False
    then obtain mi1 where
      p: "(if \<not> SR_MI_PERM_NO mi_opts
                  then Some (snd (sr_modinfo_perm_check env (mod_info\<lparr>mi_mods := mods\<rparr>)
                                    (SR_MI_PERM_WRITE mi_opts) (SR_MI_PERM_STRICT mi_opts)))
                  else Some (Inr (mod_info\<lparr>mi_mods := mods\<rparr>))) = Some (Inr mi1)"
      and q: "mod_info' = mi1\<lparr>mi_mods := qsort sr_modinfo_qsort_cmp (mi_mods mi1)\<rparr>"
      using rest by (auto simp: and_then_Some_Inr)
    have "\<exists>P. mi_mods mi1 = filter P mods"
    proof (cases "SR_MI_PERM_NO mi_opts")
      case True
      then have "mi_mods mi1 = filter (\<lambda>_. True) mods" using p by auto
      then show ?thesis by blast
    next
      case False
      then have "snd (sr_modinfo_perm_check env (mod_info\<lparr>mi_mods := mods\<rparr>)
                     (SR_MI_PERM_WRITE mi_opts) (SR_MI_PERM_STRICT mi_opts)) = Inr mi1"
        using p by simp
      from sr_modinfo_perm_check_filter[OF this] show ?thesis by auto
    qed
    then have "modinfo_consistent conn (mi_mods mi1)"
      using props modinfo_consistent_filter by auto
    then have d: "distinct (map mi_shm_mod (mi_mods mi1))"
      using consistent_distinct_shm uniq by blast
    have "distinct (map mi_shm_mod (mi_mods mod_info'))"
      using d q by (simp add: distinct_qsort)
    moreover have "sorted_wrt (\<lambda>a b. mi_shm_mod a \<le> mi_shm_mod b) (mi_mods mod_info')"
      using q sorted_qsort by simp
    ultimately show ?thesis using strict_sorted_shm by blast
  qed
qed

lemmas ex_defs = ex_conn_def ex_ly_def ex_shm_mod_def ex_mod_info_def ex_perm_env_def ex_mi_opts_def
  ex_entry_def

lemmas mod_info_defs = MOD_INFO_DEP_def MOD_INFO_INV_DEP_def MOD_INFO_REQ_def MOD_INFO_TYPE_MASK_def
  MOD_INFO_DATA_def MOD_INFO_CHANGED_def

lemma ex_add_mod_ops:
  "sr_modinfo_add_mod (Suc (Suc (Suc 0))) ex_conn (ex_ly ''ops'') MOD_INFO_REQ
     (MOD_INFO_DEP OR MOD_INFO_INV_DEP) [] =
   Some (Inr [ex_entry 1 MOD_INFO_REQ ''ops'', ex_entry 0 MOD_INFO_DEP ''ops-ref''])"
  by (simp add: ex_defs mod_info_defs and_then_def add_mod_entry_def mod_search_def
      ly_ctx_get_module_implemented_def)

theorem sr_modinfo_add_modules_sorted_witness:
  "sr_modinfo_add_modules_resolve (Suc (Suc (Suc 0))) ex_conn ex_perm_env ex_mod_info [ex_ly ''ops'']
     (MOD_INFO_DEP OR MOD_INFO_INV_DEP) ex_mi_opts =
     Some (Inr (ex_mod_info\<lparr>mi_mods :=
        [ex_entry 0 MOD_INFO_DEP ''ops-ref'', ex_entry 1 MOD_INFO_REQ ''ops'']\<rparr>)) \<and>
   set [ex_ly ''ops''] \<subseteq> impl_mods ex_conn \<and>
   inj_on ly_name (impl_mods ex_conn) \<and>
   modinfo_consistent ex_conn (mi_mods ex_mod_info) \<and>
   sorted_wrt (<) (map mi_shm_mod (mi_mods ex_mod_info)) \<and>
   sorted_wrt (<) (map mi_shm_mod
     [ex_entry 0 MOD_INFO_DEP ''ops-ref'', ex_entry 1 MOD_INFO_REQ ''ops'']) \<and>
   distinct (map mi_shm_mod
     [ex_entry 0 MOD_INFO_DEP ''ops-ref'', ex_entry 1 MOD_INFO_REQ ''ops''])"
proof -
  have m0: "mi_mods ex_mod_info = []" by (simp add: ex_mod_info_def)
  have run: "sr_modinfo_add_modules_resolve (Suc (Suc (Suc 0))) ex_conn ex_perm_env ex_mod_info
       [ex_ly ''ops''] (MOD_INFO_DEP OR MOD_INFO_INV_DEP) ex_mi_opts =
     Some (Inr (ex_mod_info\<lparr>mi_mods :=
        [ex_entry 0 MOD_INFO_DEP ''ops-ref'', ex_entry 1 MOD_INFO_REQ ''ops'']\<rparr>))"
    unfolding sr_modinfo_add_modules_resolve_def
    by (simp add: m0 ex_add_mod_ops and_then_def Let_def ex_mi_opts_def qsort_def
        sr_modinfo_qsort_cmp_def ex_entry_def del: sr_modinfo_add_mod.simps)
  have seeds: "set [ex_ly ''ops''] \<subseteq> impl_mods ex_conn"
    by (simp add: impl_mods_def ex_conn_def ex_ly_def)
  have uniq: "inj_on ly_name (impl_mods ex_conn)"
    by (simp add: impl_mods_def ex_conn_def ex_ly_def)
  have cons: "modinfo_consistent ex_conn (mi_mods ex_mod_info)"
    by (simp add: m0 modinfo_consistent_def)
  have srt: "sorted_wrt (<) (map mi_shm_mod (mi_mods ex_mod_info))"
    by (simp add: m0)
  from sr_modinfo_add_modules_sorted[OF run seeds uniq cons srt]
  show ?thesis using run seeds uniq cons srt by simp
qed

subsection \<open>\<^verbatim>\<open>sr_modinfo_perm_check\<close>\<close>

lemma sr_perm_check_ok:
  assumes "perm_checked m" "env_asprintf_ok env (startup_file env m)"
    "env_eaccess env (startup_file env m) (access_of wr) = None \<or>
     env_eaccess env (startup_file env m) (access_of wr) = Some EACCES"
  shows "sr_perm_check env (ly_name (mi_ly_mod m)) wr ha =
     ([perm_call env wr m],
      if perm_denied env wr m then (if ha then Inr False else Inl SR_ERR_UNAUTHORIZED) else Inr True)"
  using assms
  by (auto simp: sr_perm_check_def sr_path_startup_file_def startup_file_def access_of_def
      perm_denied_def perm_call_def Let_def)

lemma perm_check_result_skip:
  "\<not> perm_checked m \<Longrightarrow>
   perm_check_result env wr strict done (m # todo) = perm_check_result env wr strict (done @ [m]) todo"
  by (auto simp: perm_check_result_def perm_denied_def)

lemma perm_check_loop_eq:
  assumes "only_denials env wr (drop i mods)"
  shows "perm_check_loop env wr strict i mods = perm_check_result env wr strict (take i mods) (drop i mods)"
  using assms
proof (induction "length mods - i" arbitrary: i mods rule: less_induct)
  case less
  show ?case
  proof (cases "i < length mods")
    case False
    then show ?thesis
      by (simp add: perm_check_loop_end perm_check_result_def)
  next
    case True
    then have dr: "drop i mods = mods ! i # drop (Suc i) mods"
      by (simp add: Cons_nth_drop_Suc)
    have od: "only_denials env wr (drop (Suc i) mods)"
      using less.prems dr by (simp add: only_denials_def)
    have next_eq: "perm_check_loop env wr strict (Suc i) mods =
        perm_check_result env wr strict (take i mods @ [mods ! i]) (drop (Suc i) mods)"
      using less.hyps[of mods "Suc i"] True od by (simp add: take_Suc_conv_app_nth)
    show ?thesis
    proof (cases "perm_checked (mods ! i)")
      case False
      then have "perm_check_loop env wr strict i mods = perm_check_loop env wr strict (Suc i) mods"
        using True by (simp add: perm_check_loop_skip perm_checked_def)
      then show ?thesis
        using next_eq dr perm_check_result_skip[OF False] by simp
    next
      case chk: True
      then have chk': "mi_state (mods ! i) AND (MOD_INFO_REQ OR MOD_INFO_CHANGED) \<noteq> 0"
        by (simp add: perm_checked_def)
      have pc: "sr_perm_check env (ly_name (mi_ly_mod (mods ! i))) wr (\<not> strict) =
         ([perm_call env wr (mods ! i)],
           if perm_denied env wr (mods ! i)
           then (if \<not> strict then Inr False else Inl SR_ERR_UNAUTHORIZED) else Inr True)"
        using sr_perm_check_ok[OF chk, of env wr "\<not> strict"] less.prems dr chk
        by (simp add: only_denials_def)
      show ?thesis
      proof (cases "perm_denied env wr (mods ! i)")
        case den: True
        show ?thesis
        proof (cases strict)
          case True
          then have "perm_check_loop env wr strict i mods =
                ([perm_call env wr (mods ! i)], Inl SR_ERR_UNAUTHORIZED)"
            using perm_check_loop_err[OF \<open>i < length mods\<close> chk', of env wr strict] pc den by simp
          then show ?thesis
            using True den chk dr by (simp add: perm_check_result_def)
        next
          case False
          let ?mods' = "take i mods @ drop (Suc i) mods"
          have d': "drop i ?mods' = drop (Suc i) mods" and t': "take i ?mods' = take i mods"
            using \<open>i < length mods\<close> by simp_all
          have "perm_check_loop env wr strict i ?mods' =
             perm_check_result env wr strict (take i ?mods') (drop i ?mods')"
            using less.hyps[of ?mods' i] \<open>i < length mods\<close> od d' by simp
          moreover have "perm_check_loop env wr strict i mods =
             ([perm_call env wr (mods ! i)] @ fst (perm_check_loop env wr strict i ?mods'),
              snd (perm_check_loop env wr strict i ?mods'))"
            using perm_check_loop_remove[OF \<open>i < length mods\<close> chk', of env wr strict _ False] pc den False
            by simp
          ultimately show ?thesis
            using False den chk dr d' t' by (simp add: perm_check_result_def)
        qed
      next
        case False
        have "perm_check_loop env wr strict i mods =
             ([perm_call env wr (mods ! i)] @ fst (perm_check_loop env wr strict (Suc i) mods),
              snd (perm_check_loop env wr strict (Suc i) mods))"
          using perm_check_loop_keep[OF \<open>i < length mods\<close> chk', of env wr strict _ True] pc False
          by simp
        then show ?thesis
          using next_eq chk False dr
          by (auto simp: perm_check_result_def perm_denied_def)
      qed
    qed
  qed
qed

lemma strict_calls_no_denial:
  "\<not> (\<exists>m \<in> set mods. perm_denied env wr m) \<Longrightarrow>
   strict_calls env wr mods = map (perm_call env wr) (filter perm_checked mods)"
  by (induction mods) auto

text \<open>
  C7. \<^verbatim>\<open>sr_modinfo_perm_check\<close> calls \<^verbatim>\<open>eaccess\<close> on the startup file of the entries whose state
  has \<^verbatim>\<open>MOD_INFO_REQ\<close> or \<^verbatim>\<open>MOD_INFO_CHANGED\<close>, with \<^verbatim>\<open>W_OK\<close> for a write and \<^verbatim>\<open>R_OK\<close> for a read
  check, in the order of the array. Where every such check ends in access or in denial
  (\<^verbatim>\<open>EACCES\<close>): in strict mode a denial ends the call with \<^verbatim>\<open>SR_ERR_UNAUTHORIZED\<close>, after the
  checks up to the first denied entry, and without a denial every checked entry is tested
  and the module-info set is unchanged; in non-strict mode every checked entry is tested
  and exactly the denied entries are removed, the others keeping their order. Non-strict
  mode on a module-info set that holds data fails the assertion of the function.
\<close>

theorem sr_modinfo_perm_check_spec:
  assumes "only_denials env wr (mi_mods mod_info)"
  shows "sr_modinfo_perm_check env mod_info wr strict =
     (if \<not> strict \<and> mi_data mod_info \<noteq> [] then ([], Inl Assert_failed)
      else if strict \<and> (\<exists>m \<in> set (mi_mods mod_info). perm_denied env wr m)
      then (strict_calls env wr (mi_mods mod_info), Inl SR_ERR_UNAUTHORIZED)
      else (map (perm_call env wr) (filter perm_checked (mi_mods mod_info)),
            Inr (mod_info\<lparr>mi_mods := filter (\<lambda>m. \<not> perm_denied env wr m) (mi_mods mod_info)\<rparr>)))"
proof -
  have l: "perm_check_loop env wr strict 0 (mi_mods mod_info) =
        perm_check_result env wr strict [] (mi_mods mod_info)"
    using perm_check_loop_eq[of env wr 0 "mi_mods mod_info" strict] assms by simp
  show ?thesis
  proof (cases "strict \<and> (\<exists>m \<in> set (mi_mods mod_info). perm_denied env wr m)")
    case True
    then show ?thesis using l by (simp add: sr_modinfo_perm_check_def perm_check_result_def)
  next
    case False
    then have "filter (\<lambda>m. \<not> perm_denied env wr m) (mi_mods mod_info) = mi_mods mod_info" if strict
      using that by (auto simp: filter_id_conv)
    then show ?thesis
      using l False strict_calls_no_denial[of "mi_mods mod_info" env wr]
      by (auto simp: sr_modinfo_perm_check_def perm_check_result_def)
  qed
qed

theorem sr_modinfo_perm_check_spec_witness:
  "only_denials ex_perm_env False
      (mi_mods (ex_mod_info\<lparr>mi_mods :=
         [ex_entry 0 MOD_INFO_REQ ''ops-ref'', ex_entry 1 MOD_INFO_REQ ''ops'']\<rparr>)) \<and>
   sr_modinfo_perm_check ex_perm_env
      (ex_mod_info\<lparr>mi_mods :=
         [ex_entry 0 MOD_INFO_REQ ''ops-ref'', ex_entry 1 MOD_INFO_REQ ''ops'']\<rparr>) False False =
     ([(''/etc/sysrepo/data/ops-ref.startup'', R_OK), (''/etc/sysrepo/data/ops.startup'', R_OK)],
      Inr (ex_mod_info\<lparr>mi_mods := [ex_entry 1 MOD_INFO_REQ ''ops'']\<rparr>))"
proof -
  have od: "only_denials ex_perm_env False
      (mi_mods (ex_mod_info\<lparr>mi_mods :=
         [ex_entry 0 MOD_INFO_REQ ''ops-ref'', ex_entry 1 MOD_INFO_REQ ''ops'']\<rparr>))"
    by (simp add: only_denials_def ex_defs)
  show ?thesis
    using od sr_modinfo_perm_check_spec[OF od, of False]
    by (simp add: ex_defs mod_info_defs perm_checked_def perm_denied_def perm_call_def
        startup_file_def access_of_def EACCES_def)
qed

subsection \<open>\<^verbatim>\<open>sr_modinfo_add_mod\<close>: the closure rules\<close>

lemma has_mod_grow:
  assumes "mods_grow t mods mods'" "has_mod k n mods"
  shows "has_mod k n mods'"
proof -
  obtain e where e: "e \<in> set mods" "ly_name (mi_ly_mod e) = n" "k \<le> mod_kind e"
    using assms(2) by (auto simp: has_mod_def)
  then obtain j where j: "j < length mods" "mods ! j = e" by (auto simp: in_set_conv_nth)
  then have "j < length mods'" using assms(1) by (simp add: mods_grow_def)
  moreover have "ly_name (mi_ly_mod (mods' ! j)) = n" "k \<le> mod_kind (mods' ! j)"
    using assms(1) j e by (auto simp: mods_grow_def dest: order_trans)
  ultimately show ?thesis unfolding has_mod_def using nth_mem by blast
qed

lemma changed_to_refl: "changed_to s mods mods"
  by (simp add: changed_to_def)

lemma changed_to_trans:
  assumes "changed_to s a b" "changed_to s b c"
  shows "changed_to s a c"
  unfolding changed_to_def
proof (intro conjI allI impI)
  show "length a \<le> length c" using assms by (simp add: changed_to_def)
next
  fix j assume j: "j < length c"
  show "(j < length a \<and> c ! j = a ! j) \<or> mi_state (c ! j) = s"
  proof (cases "mi_state (c ! j) = s")
    case True
    then show ?thesis by simp
  next
    case False
    then have b: "j < length b \<and> c ! j = b ! j" using assms(2) j by (auto simp: changed_to_def)
    then have "j < length a \<and> b ! j = a ! j" using assms(1) False by (auto simp: changed_to_def)
    then show ?thesis using b by simp
  qed
qed

lemma add_mod_entry_return_Inr:
  assumes "add_mod_entry conn ly_mod mod_typ mod_req_deps mods = Entry_return (Inr mods')"
  shows "mods' = mods \<and> (\<exists>i. mod_search ly_mod mods = Mod_found i \<and> mod_typ \<le> mod_kind (mods ! i))"
  using assms
  by (auto simp: add_mod_entry_def mod_kind_def split: if_splits mod_search.splits option.splits)

lemma add_mod_entry_changed:
  assumes e: "add_mod_entry conn ly_mod mod_typ mod_req_deps mods = Entry_present prev cur_i shm_mod mods2"
  shows "length mods \<le> length mods2 \<and>
         (\<forall>j < length mods2. j \<noteq> cur_i \<longrightarrow> j < length mods \<and> mods2 ! j = mods ! j)"
proof -
  note p = add_mod_entry_present[OF e]
  from p show ?thesis
  proof (elim conjE disjE)
    assume "cur_i = length mods"
      "mods2 = mods @ [\<lparr>mi_shm_mod = shm_mod, mi_state = mod_typ, mi_ly_mod = ly_mod\<rparr>]"
    then show ?thesis by (auto simp: nth_append)
  next
    assume "mods2 = mods[cur_i := (mods ! cur_i)\<lparr>mi_state := mod_typ\<rparr>]"
    then show ?thesis by auto
  qed
qed

lemma sr_modinfo_add_mod_dep_changed:
  assumes run: "sr_modinfo_add_mod fuel conn ly_mod MOD_INFO_DEP mod_req_deps mods = Some (Inr mods')"
  shows "changed_to MOD_INFO_DEP mods mods'"
proof (cases fuel)
  case 0
  then show ?thesis using run by simp
next
  case (Suc fuel')
  show ?thesis
  proof (cases "add_mod_entry conn ly_mod MOD_INFO_DEP mod_req_deps mods")
    case Entry_loops
    then show ?thesis using run Suc by simp
  next
    case (Entry_return r)
    then have "mods' = mods" using run Suc add_mod_entry_return by auto
    then show ?thesis by (simp add: changed_to_refl)
  next
    case (Entry_present prev cur_i shm_mod mods2)
    note p = add_mod_entry_present[OF Entry_present]
    have "mi_state (mods2 ! cur_i) < MOD_INFO_INV_DEP"
      using p by (simp add: MOD_INFO_DEP_def MOD_INFO_INV_DEP_def)
    then have m: "mods' = mods2" using run Suc Entry_present by simp
    have "mi_state (mods2 ! cur_i) = MOD_INFO_DEP" using p by simp
    then show ?thesis
      using add_mod_entry_changed[OF Entry_present] m unfolding changed_to_def by metis
  qed
qed

lemma add_data_deps_changed:
  assumes "\<And>m mods mods'. add_dep m mods = Some (Inr mods') \<Longrightarrow> changed_to s mods mods'"
    and "add_data_deps add_dep ctx deps mods = Some (Inr mods')"
  shows "changed_to s mods mods'"
  using assms(2)
proof (induction deps arbitrary: mods)
  case Nil
  then show ?case by (simp add: changed_to_refl)
next
  case (Cons dep deps)
  show ?case
  proof (cases "dep_type dep = SR_DEP_INSTID")
    case True
    then show ?thesis using Cons by simp
  next
    case False
    then obtain m mods1 where "add_dep m mods = Some (Inr mods1)"
      and "add_data_deps add_dep ctx deps mods1 = Some (Inr mods')"
      using Cons.prems by (auto simp: and_then_Some_Inr split: option.splits)
    then show ?thesis
      using Cons.IH assms(1) changed_to_trans by blast
  qed
qed

text \<open>Every dependency that the loops process is in the array afterwards.\<close>

lemma add_data_deps_present:
  assumes step: "\<And>m mods mods'. add_dep m mods = Some (Inr mods') \<Longrightarrow>
             mods_grow t mods mods' \<and> has_mod k (ly_name m) mods'"
    and run: "add_data_deps add_dep ctx deps mods = Some (Inr mods')"
    and d: "dep \<in> set deps" "dep_type dep \<noteq> SR_DEP_INSTID"
  shows "has_mod k (dep_module dep) mods'"
  using run d(1)
proof (induction deps arbitrary: mods)
  case Nil
  then show ?case by simp
next
  case (Cons x deps)
  show ?case
  proof (cases "dep_type x = SR_DEP_INSTID")
    case True
    then have "dep \<in> set deps" using Cons.prems(2) d(2) by auto
    then show ?thesis using Cons True by simp
  next
    case False
    then obtain m mods1 where l: "ly_ctx_get_module_implemented ctx (dep_module x) = Some m"
      and a: "add_dep m mods = Some (Inr mods1)"
      and r: "add_data_deps add_dep ctx deps mods1 = Some (Inr mods')"
      using Cons.prems by (auto simp: and_then_Some_Inr split: option.splits)
    show ?thesis
    proof (cases "dep = x")
      case True
      have "has_mod k (dep_module x) mods1"
        using step[OF a] ly_ctx_get_module_implemented_Some[OF l] by simp
      moreover have "mods_grow t mods1 mods'"
        using add_data_deps_grow[of add_dep t, OF _ r] step by blast
      ultimately show ?thesis using True has_mod_grow by blast
    next
      case False
      then have "dep \<in> set deps" using Cons.prems(2) by simp
      then show ?thesis using Cons.IH[OF r] by simp
    qed
  qed
qed

lemma add_inv_data_deps_present:
  assumes step: "\<And>m mods mods'. add_dep m mods = Some (Inr mods') \<Longrightarrow>
             mods_grow t mods mods' \<and> has_mod k (ly_name m) mods'"
    and run: "add_inv_data_deps add_dep ctx deps mods = Some (Inr mods')"
    and d: "n \<in> set deps"
  shows "has_mod k n mods'"
  using run d
proof (induction deps arbitrary: mods)
  case Nil
  then show ?case by simp
next
  case (Cons x deps)
  obtain m mods1 where l: "ly_ctx_get_module_implemented ctx x = Some m"
    and a: "add_dep m mods = Some (Inr mods1)"
    and r: "add_inv_data_deps add_dep ctx deps mods1 = Some (Inr mods')"
    using Cons.prems by (auto simp: and_then_Some_Inr split: option.splits)
  show ?case
  proof (cases "n = x")
    case True
    have "has_mod k x mods1"
      using step[OF a] ly_ctx_get_module_implemented_Some[OF l] by simp
    moreover have "mods_grow t mods1 mods'"
      using add_inv_data_deps_grow[of add_dep t, OF _ r] step by blast
    ultimately show ?thesis using True has_mod_grow by blast
  next
    case False
    then have "n \<in> set deps" using Cons.prems(2) by simp
    then show ?thesis using Cons.IH[OF r] by simp
  qed
qed

text \<open>A successful call, taken apart.\<close>

lemma sr_modinfo_add_mod_run:
  assumes run: "sr_modinfo_add_mod fuel conn ly_mod mod_typ mod_req_deps mods = Some (Inr mods')"
  shows "(add_mod_entry conn ly_mod mod_typ mod_req_deps mods = Entry_return (Inr mods) \<and> mods' = mods) \<or>
    (\<exists>fuel' prev cur_i shm_mod mods2 mods3.
       fuel = Suc fuel' \<and>
       add_mod_entry conn ly_mod mod_typ mod_req_deps mods = Entry_present prev cur_i shm_mod mods2 \<and>
       (if mod_req_deps AND MOD_INFO_DEP = 0 \<or> mod_typ < MOD_INFO_INV_DEP \<or> \<not> prev < MOD_INFO_INV_DEP
        then mods3 = mods2
        else add_data_deps (\<lambda>dep_mod. sr_modinfo_add_mod fuel' conn dep_mod MOD_INFO_DEP mod_req_deps)
               (conn_ly_ctx conn) (shm_data_deps (conn_main_shm conn ! shm_mod)) mods2 = Some (Inr mods3)) \<and>
       (if mod_req_deps AND MOD_INFO_DEP = 0 \<or> mod_typ < MOD_INFO_INV_DEP \<or>
           mod_req_deps AND MOD_INFO_INV_DEP = 0 \<or> mod_typ < MOD_INFO_REQ \<or> \<not> prev < MOD_INFO_REQ
        then mods' = mods3
        else add_inv_data_deps (\<lambda>dep_mod. sr_modinfo_add_mod fuel' conn dep_mod MOD_INFO_INV_DEP mod_req_deps)
               (conn_ly_ctx conn) (shm_inv_data_deps (conn_main_shm conn ! shm_mod)) mods3 = Some (Inr mods')) \<and>
       mods_grow MOD_INFO_DEP mods2 mods3 \<and> mods_grow MOD_INFO_INV_DEP mods3 mods' \<and>
       changed_to MOD_INFO_DEP mods2 mods3)"
proof (cases fuel)
  case 0
  then show ?thesis using run by simp
next
  case (Suc fuel')
  show ?thesis
  proof (cases "add_mod_entry conn ly_mod mod_typ mod_req_deps mods")
    case Entry_loops
    then show ?thesis using run Suc by simp
  next
    case (Entry_return r)
    then have "r = Inr mods'" using run Suc by simp
    then show ?thesis using Entry_return add_mod_entry_return by auto
  next
    case (Entry_present prev cur_i shm_mod mods2)
    note p = add_mod_entry_present[OF Entry_present]
    have vt: "mod_typ = MOD_INFO_REQ \<or> mod_typ = MOD_INFO_DEP \<or> mod_typ = MOD_INFO_INV_DEP"
      using add_mod_entry_valid[OF Entry_present] .
    have st2: "mi_state (mods2 ! cur_i) = mod_typ" using p by simp
    show ?thesis
    proof (cases "mod_req_deps AND MOD_INFO_DEP = 0 \<or> mod_typ < MOD_INFO_INV_DEP")
      case True
      then have "mods' = mods2" using run Suc Entry_present st2 by auto
      then show ?thesis using Entry_present Suc True mods_grow_refl changed_to_refl by auto
    next
      case False
      then obtain mods3 where
        d: "(if prev < MOD_INFO_INV_DEP
               then add_data_deps
                      (\<lambda>dep_mod. sr_modinfo_add_mod fuel' conn dep_mod MOD_INFO_DEP mod_req_deps)
                      (conn_ly_ctx conn) (shm_data_deps (conn_main_shm conn ! shm_mod)) mods2
               else Some (Inr mods2)) = Some (Inr mods3)"
        and i: "(if mod_req_deps AND MOD_INFO_INV_DEP = 0 \<or> mi_state (mods3 ! cur_i) < MOD_INFO_REQ
                 then Some (Inr mods3)
                 else if prev < MOD_INFO_REQ
                 then add_inv_data_deps
                        (\<lambda>dep_mod. sr_modinfo_add_mod fuel' conn dep_mod MOD_INFO_INV_DEP mod_req_deps)
                        (conn_ly_ctx conn) (shm_inv_data_deps (conn_main_shm conn ! shm_mod)) mods3
                 else Some (Inr mods3)) = Some (Inr mods')"
        using run Suc Entry_present st2 by (auto simp: and_then_Some_Inr)
      have g3d: "mods_grow MOD_INFO_DEP mods2 mods3"
        using d add_data_deps_grow[of "\<lambda>dep_mod. sr_modinfo_add_mod fuel' conn dep_mod MOD_INFO_DEP mod_req_deps" MOD_INFO_DEP]
          sr_modinfo_add_mod_grow
        by (auto simp: mods_grow_refl split: if_splits)
      have st3: "mi_state (mods3 ! cur_i) = mod_typ"
      proof -
        have "mod_kind (mods2 ! cur_i) = mod_typ"
          using p vt by (simp add: mod_kind_def valid_typ_kind)
        moreover have "MOD_INFO_DEP \<le> mod_typ"
          using vt by (auto simp: MOD_INFO_REQ_def MOD_INFO_DEP_def MOD_INFO_INV_DEP_def)
        ultimately have "mods3 ! cur_i = mods2 ! cur_i"
          using g3d p by (simp add: mods_grow_def)
        then show ?thesis using p by simp
      qed
      have c3: "changed_to MOD_INFO_DEP mods2 mods3"
        using d add_data_deps_changed[of "\<lambda>dep_mod. sr_modinfo_add_mod fuel' conn dep_mod MOD_INFO_DEP mod_req_deps" MOD_INFO_DEP]
          sr_modinfo_add_mod_dep_changed
        by (auto simp: changed_to_refl split: if_splits)
      have g4: "mods_grow MOD_INFO_INV_DEP mods3 mods'"
        using i add_inv_data_deps_grow[of "\<lambda>dep_mod. sr_modinfo_add_mod fuel' conn dep_mod MOD_INFO_INV_DEP mod_req_deps" MOD_INFO_INV_DEP]
          sr_modinfo_add_mod_grow
        by (auto simp: mods_grow_refl split: if_splits)
      have "\<exists>mods3'. (if mod_req_deps AND MOD_INFO_DEP = 0 \<or> mod_typ < MOD_INFO_INV_DEP \<or> \<not> prev < MOD_INFO_INV_DEP
        then mods3' = mods2
        else add_data_deps (\<lambda>dep_mod. sr_modinfo_add_mod fuel' conn dep_mod MOD_INFO_DEP mod_req_deps)
               (conn_ly_ctx conn) (shm_data_deps (conn_main_shm conn ! shm_mod)) mods2 = Some (Inr mods3')) \<and>
       (if mod_req_deps AND MOD_INFO_DEP = 0 \<or> mod_typ < MOD_INFO_INV_DEP \<or>
           mod_req_deps AND MOD_INFO_INV_DEP = 0 \<or> mod_typ < MOD_INFO_REQ \<or> \<not> prev < MOD_INFO_REQ
        then mods' = mods3'
        else add_inv_data_deps (\<lambda>dep_mod. sr_modinfo_add_mod fuel' conn dep_mod MOD_INFO_INV_DEP mod_req_deps)
               (conn_ly_ctx conn) (shm_inv_data_deps (conn_main_shm conn ! shm_mod)) mods3' = Some (Inr mods')) \<and>
       mods_grow MOD_INFO_DEP mods2 mods3' \<and> mods_grow MOD_INFO_INV_DEP mods3' mods' \<and>
       changed_to MOD_INFO_DEP mods2 mods3'"
        using d i False st3 g3d g4 c3 by (intro exI[of _ mods3]) (auto split: if_splits)
      then show ?thesis using Entry_present Suc by blast
    qed
  qed
qed



lemma sr_modinfo_add_mod_present:
  assumes run: "sr_modinfo_add_mod fuel conn ly_mod mod_typ mod_req_deps mods = Some (Inr mods')"
  shows "has_mod mod_typ (ly_name ly_mod) mods'"
proof -
  from sr_modinfo_add_mod_run[OF run] show ?thesis
  proof (elim disjE conjE exE)
    assume r: "add_mod_entry conn ly_mod mod_typ mod_req_deps mods = Entry_return (Inr mods)"
      and m: "mods' = mods"
    from add_mod_entry_return_Inr[OF r] obtain i where
      f: "mod_search ly_mod mods = Mod_found i" and k: "mod_typ \<le> mod_kind (mods ! i)" by blast
    have "i < length mods \<and> mi_ly_mod (mods ! i) = ly_mod" using mod_search_found[OF f] .
    then show ?thesis using k m unfolding has_mod_def using nth_mem by blast
  next
    fix fuel' prev cur_i shm_mod mods2 mods3
    assume e: "add_mod_entry conn ly_mod mod_typ mod_req_deps mods = Entry_present prev cur_i shm_mod mods2"
      and g3: "mods_grow MOD_INFO_DEP mods2 mods3" and g4: "mods_grow MOD_INFO_INV_DEP mods3 mods'"
    note p = add_mod_entry_present[OF e]
    have "mod_kind (mods2 ! cur_i) = mod_typ"
      using p add_mod_entry_valid[OF e] by (simp add: mod_kind_def valid_typ_kind)
    then have "has_mod mod_typ (ly_name ly_mod) mods2"
      using p unfolding has_mod_def using nth_mem[of cur_i mods2] by auto
    then show ?thesis using has_mod_grow[OF g3] has_mod_grow[OF g4] by blast
  qed
qed



lemma add_mod_entry_prev:
  assumes "add_mod_entry conn ly_mod mod_typ mod_req_deps mods = Entry_present prev cur_i shm_mod mods2"
  shows "prev = prev_mod_type_of ly_mod mods"
  using add_mod_entry_present[OF assms] by (auto simp: prev_mod_type_of_def)

lemma add_mod_entry_not_return:
  assumes "add_mod_entry conn ly_mod mod_typ mod_req_deps mods = Entry_return (Inr mods)"
    and "mod_search ly_mod mods = Mod_absent \<or>
         (\<exists>i. mod_search ly_mod mods = Mod_found i \<and> mod_kind (mods ! i) < mod_typ)"
  shows False
  using add_mod_entry_return_Inr[OF assms(1)] assms(2) by auto

lemma valid_typ_cases:
  assumes "mod_typ = MOD_INFO_REQ \<or> mod_typ = MOD_INFO_DEP \<or> mod_typ = MOD_INFO_INV_DEP"
  shows "MOD_INFO_DEP \<le> mod_typ" "mod_typ < MOD_INFO_INV_DEP \<or> MOD_INFO_INV_DEP \<le> mod_typ"
    "MOD_INFO_INV_DEP \<le> mod_typ \<Longrightarrow> \<not> mod_typ < MOD_INFO_REQ \<Longrightarrow> mod_typ = MOD_INFO_REQ"
  using assms by (auto simp: MOD_INFO_REQ_def MOD_INFO_DEP_def MOD_INFO_INV_DEP_def)

text \<open>The entry of the module itself after the call.\<close>

lemma sr_modinfo_add_mod_own:
  assumes run: "sr_modinfo_add_mod fuel conn ly_mod mod_typ mod_req_deps mods = Some (Inr mods')"
    and e: "add_mod_entry conn ly_mod mod_typ mod_req_deps mods = Entry_present prev cur_i shm_mod mods2"
  shows "cur_i < length mods' \<and> mods' ! cur_i = mods2 ! cur_i"
proof -
  note p = add_mod_entry_present[OF e]
  have vt: "mod_typ = MOD_INFO_REQ \<or> mod_typ = MOD_INFO_DEP \<or> mod_typ = MOD_INFO_INV_DEP"
    using add_mod_entry_valid[OF e] .
  have k2: "mod_kind (mods2 ! cur_i) = mod_typ"
    using p vt by (simp add: mod_kind_def valid_typ_kind)
  from sr_modinfo_add_mod_run[OF run] e obtain fuel' mods3 where
    i: "(if mod_req_deps AND MOD_INFO_DEP = 0 \<or> mod_typ < MOD_INFO_INV_DEP \<or>
           mod_req_deps AND MOD_INFO_INV_DEP = 0 \<or> mod_typ < MOD_INFO_REQ \<or> \<not> prev < MOD_INFO_REQ
        then mods' = mods3
        else add_inv_data_deps (\<lambda>dep_mod. sr_modinfo_add_mod fuel' conn dep_mod MOD_INFO_INV_DEP mod_req_deps)
               (conn_ly_ctx conn) (shm_inv_data_deps (conn_main_shm conn ! shm_mod)) mods3 = Some (Inr mods'))"
    and g3: "mods_grow MOD_INFO_DEP mods2 mods3" and g4: "mods_grow MOD_INFO_INV_DEP mods3 mods'"
    by auto
  have l3: "cur_i < length mods3" and m3: "mods3 ! cur_i = mods2 ! cur_i"
    using g3 p k2 valid_typ_cases(1)[OF vt] by (auto simp: mods_grow_def)
  show ?thesis
  proof (cases "MOD_INFO_INV_DEP \<le> mod_typ")
    case True
    then have "MOD_INFO_INV_DEP \<le> mod_kind (mods3 ! cur_i)" using m3 k2 by simp
    then show ?thesis using g4 l3 m3 by (auto simp: mods_grow_def)
  next
    case False
    then have "mods' = mods3" using i by (auto split: if_splits)
    then show ?thesis using l3 m3 by simp
  qed
qed

lemma sr_modinfo_add_mod_noop:
  assumes run: "sr_modinfo_add_mod fuel conn ly_mod mod_typ mod_req_deps mods = Some (Inr mods')"
    and f: "mod_search ly_mod mods = Mod_found i" and k: "mod_typ \<le> mod_kind (mods ! i)"
  shows "mods' = mods"
proof -
  from sr_modinfo_add_mod_run[OF run] show ?thesis
  proof (elim disjE conjE exE)
    fix fuel' prev cur_i shm_mod mods2 mods3
    assume e: "add_mod_entry conn ly_mod mod_typ mod_req_deps mods = Entry_present prev cur_i shm_mod mods2"
    from add_mod_entry_present[OF e] f k show ?thesis by (auto simp: mod_kind_def)
  qed simp
qed

lemma sr_modinfo_add_mod_upgrade:
  assumes run: "sr_modinfo_add_mod fuel conn ly_mod mod_typ mod_req_deps mods = Some (Inr mods')"
    and f: "mod_search ly_mod mods = Mod_found i" and k: "mod_kind (mods ! i) < mod_typ"
  shows "i < length mods' \<and> mods' ! i = (mods ! i)\<lparr>mi_state := mod_typ\<rparr>"
proof -
  from sr_modinfo_add_mod_run[OF run] show ?thesis
  proof (elim disjE conjE exE)
    assume "add_mod_entry conn ly_mod mod_typ mod_req_deps mods = Entry_return (Inr mods)"
    then show ?thesis using add_mod_entry_not_return f k by blast
  next
    fix fuel' prev cur_i shm_mod mods2 mods3
    assume e: "add_mod_entry conn ly_mod mod_typ mod_req_deps mods = Entry_present prev cur_i shm_mod mods2"
    have il: "i < length mods" using mod_search_found[OF f] by simp
    from add_mod_entry_present[OF e] f have "cur_i = i"
      and "mods2 = mods[i := (mods ! i)\<lparr>mi_state := mod_typ\<rparr>]" by auto
    then show ?thesis using sr_modinfo_add_mod_own[OF run e] il by simp
  qed
qed

lemma sr_modinfo_add_mod_new:
  assumes run: "sr_modinfo_add_mod fuel conn ly_mod mod_typ mod_req_deps mods = Some (Inr mods')"
    and a: "mod_search ly_mod mods = Mod_absent"
  shows "length mods < length mods' \<and> mi_ly_mod (mods' ! length mods) = ly_mod \<and>
         mi_state (mods' ! length mods) = mod_typ \<and>
         sr_shmmain_find_module (conn_main_shm conn) (ly_name ly_mod) = Some (mi_shm_mod (mods' ! length mods))"
proof -
  from sr_modinfo_add_mod_run[OF run] show ?thesis
  proof (elim disjE conjE exE)
    assume "add_mod_entry conn ly_mod mod_typ mod_req_deps mods = Entry_return (Inr mods)"
    then show ?thesis using add_mod_entry_not_return a by blast
  next
    fix fuel' prev cur_i shm_mod mods2 mods3
    assume e: "add_mod_entry conn ly_mod mod_typ mod_req_deps mods = Entry_present prev cur_i shm_mod mods2"
    from add_mod_entry_present[OF e] a have "cur_i = length mods"
      and "mods2 = mods @ [\<lparr>mi_shm_mod = shm_mod, mi_state = mod_typ, mi_ly_mod = ly_mod\<rparr>]"
      and "sr_shmmain_find_module (conn_main_shm conn) (ly_name ly_mod) = Some shm_mod" by auto
    then show ?thesis using sr_modinfo_add_mod_own[OF run e] by simp
  qed
qed

text \<open>Without the dependencies, and without the inverse dependencies.\<close>

lemma sr_modinfo_add_mod_no_deps:
  assumes run: "sr_modinfo_add_mod fuel conn ly_mod mod_typ mod_req_deps mods = Some (Inr mods')"
    and c: "mod_req_deps AND MOD_INFO_DEP = 0 \<or> mod_typ < MOD_INFO_INV_DEP"
    and j: "j < length mods'"
  shows "mi_ly_mod (mods' ! j) = ly_mod \<or> (j < length mods \<and> mods' ! j = mods ! j)"
proof -
  from sr_modinfo_add_mod_run[OF run] show ?thesis
  proof (elim disjE conjE exE)
    assume "mods' = mods"
    then show ?thesis using j by simp
  next
    fix fuel' prev cur_i shm_mod mods2 mods3
    assume e: "add_mod_entry conn ly_mod mod_typ mod_req_deps mods = Entry_present prev cur_i shm_mod mods2"
      and d: "if mod_req_deps AND MOD_INFO_DEP = 0 \<or> mod_typ < MOD_INFO_INV_DEP \<or> \<not> prev < MOD_INFO_INV_DEP
        then mods3 = mods2
        else add_data_deps (\<lambda>dep_mod. sr_modinfo_add_mod fuel' conn dep_mod MOD_INFO_DEP mod_req_deps)
               (conn_ly_ctx conn) (shm_data_deps (conn_main_shm conn ! shm_mod)) mods2 = Some (Inr mods3)"
      and i: "if mod_req_deps AND MOD_INFO_DEP = 0 \<or> mod_typ < MOD_INFO_INV_DEP \<or>
           mod_req_deps AND MOD_INFO_INV_DEP = 0 \<or> mod_typ < MOD_INFO_REQ \<or> \<not> prev < MOD_INFO_REQ
        then mods' = mods3
        else add_inv_data_deps (\<lambda>dep_mod. sr_modinfo_add_mod fuel' conn dep_mod MOD_INFO_INV_DEP mod_req_deps)
               (conn_ly_ctx conn) (shm_inv_data_deps (conn_main_shm conn ! shm_mod)) mods3 = Some (Inr mods')"
    have "mods' = mods2" using d i c by (auto split: if_splits)
    then show ?thesis
      using add_mod_entry_changed[OF e] add_mod_entry_present[OF e] j by (cases "j = cur_i") auto
  qed
qed

lemma sr_modinfo_add_mod_no_inv_deps:
  assumes run: "sr_modinfo_add_mod fuel conn ly_mod mod_typ mod_req_deps mods = Some (Inr mods')"
    and c: "mod_req_deps AND MOD_INFO_INV_DEP = 0 \<or> mod_typ < MOD_INFO_REQ"
    and j: "j < length mods'"
  shows "mi_ly_mod (mods' ! j) = ly_mod \<or> (j < length mods \<and> mods' ! j = mods ! j) \<or>
         mi_state (mods' ! j) = MOD_INFO_DEP"
proof -
  from sr_modinfo_add_mod_run[OF run] show ?thesis
  proof (elim disjE conjE exE)
    assume "mods' = mods"
    then show ?thesis using j by simp
  next
    fix fuel' prev cur_i shm_mod mods2 mods3
    assume e: "add_mod_entry conn ly_mod mod_typ mod_req_deps mods = Entry_present prev cur_i shm_mod mods2"
      and i: "if mod_req_deps AND MOD_INFO_DEP = 0 \<or> mod_typ < MOD_INFO_INV_DEP \<or>
           mod_req_deps AND MOD_INFO_INV_DEP = 0 \<or> mod_typ < MOD_INFO_REQ \<or> \<not> prev < MOD_INFO_REQ
        then mods' = mods3
        else add_inv_data_deps (\<lambda>dep_mod. sr_modinfo_add_mod fuel' conn dep_mod MOD_INFO_INV_DEP mod_req_deps)
               (conn_ly_ctx conn) (shm_inv_data_deps (conn_main_shm conn ! shm_mod)) mods3 = Some (Inr mods')"
      and c3: "changed_to MOD_INFO_DEP mods2 mods3"
    have m: "mods' = mods3" using i c by (auto split: if_splits)
    show ?thesis
    proof (cases "mi_state (mods' ! j) = MOD_INFO_DEP")
      case True
      then show ?thesis by simp
    next
      case False
      then have j2: "j < length mods2" and eq: "mods' ! j = mods2 ! j"
        using c3 m j by (auto simp: changed_to_def)
      then show ?thesis
        using add_mod_entry_changed[OF e] add_mod_entry_present[OF e] by (cases "j = cur_i") auto
    qed
  qed
qed

text \<open>With the dependencies.\<close>

lemma sr_modinfo_add_mod_step:
  "sr_modinfo_add_mod fuel conn m t r mods = Some (Inr mods') \<Longrightarrow>
   mods_grow t mods mods' \<and> has_mod t (ly_name m) mods'"
  using sr_modinfo_add_mod_grow sr_modinfo_add_mod_present by blast

lemma sr_modinfo_add_mod_deps:
  assumes run: "sr_modinfo_add_mod fuel conn ly_mod mod_typ mod_req_deps mods = Some (Inr mods')"
    and c: "mod_req_deps AND MOD_INFO_DEP \<noteq> 0" "MOD_INFO_INV_DEP \<le> mod_typ"
      "prev_mod_type_of ly_mod mods < MOD_INFO_INV_DEP"
    and n: "mod_search ly_mod mods = Mod_absent \<or>
         (\<exists>i. mod_search ly_mod mods = Mod_found i \<and> mod_kind (mods ! i) < mod_typ)"
    and f: "sr_shmmain_find_module (conn_main_shm conn) (ly_name ly_mod) = Some shm_mod"
    and d: "dep \<in> set (shm_data_deps (conn_main_shm conn ! shm_mod))" "dep_type dep \<noteq> SR_DEP_INSTID"
  shows "has_mod MOD_INFO_DEP (dep_module dep) mods'"
proof -
  from sr_modinfo_add_mod_run[OF run] show ?thesis
  proof (elim disjE conjE exE)
    assume "add_mod_entry conn ly_mod mod_typ mod_req_deps mods = Entry_return (Inr mods)"
    then show ?thesis using add_mod_entry_not_return n by blast
  next
    fix fuel' prev cur_i shm_mod' mods2 mods3
    assume e: "add_mod_entry conn ly_mod mod_typ mod_req_deps mods = Entry_present prev cur_i shm_mod' mods2"
      and dd: "if mod_req_deps AND MOD_INFO_DEP = 0 \<or> mod_typ < MOD_INFO_INV_DEP \<or> \<not> prev < MOD_INFO_INV_DEP
        then mods3 = mods2
        else add_data_deps (\<lambda>dep_mod. sr_modinfo_add_mod fuel' conn dep_mod MOD_INFO_DEP mod_req_deps)
               (conn_ly_ctx conn) (shm_data_deps (conn_main_shm conn ! shm_mod')) mods2 = Some (Inr mods3)"
      and g4: "mods_grow MOD_INFO_INV_DEP mods3 mods'"
    have "shm_mod' = shm_mod" using add_mod_entry_present[OF e] f by simp
    moreover have "prev < MOD_INFO_INV_DEP" using add_mod_entry_prev[OF e] c(3) by simp
    ultimately have "add_data_deps (\<lambda>dep_mod. sr_modinfo_add_mod fuel' conn dep_mod MOD_INFO_DEP mod_req_deps)
               (conn_ly_ctx conn) (shm_data_deps (conn_main_shm conn ! shm_mod)) mods2 = Some (Inr mods3)"
      using dd c by (auto split: if_splits)
    from add_data_deps_present[of "\<lambda>dep_mod. sr_modinfo_add_mod fuel' conn dep_mod MOD_INFO_DEP mod_req_deps"
        MOD_INFO_DEP MOD_INFO_DEP, OF sr_modinfo_add_mod_step this d]
    have "has_mod MOD_INFO_DEP (dep_module dep) mods3" .
    then show ?thesis using has_mod_grow[OF g4] by blast
  qed
qed

lemma sr_modinfo_add_mod_inv_deps:
  assumes run: "sr_modinfo_add_mod fuel conn ly_mod mod_typ mod_req_deps mods = Some (Inr mods')"
    and c: "mod_req_deps = (MOD_INFO_DEP OR MOD_INFO_INV_DEP)" "mod_typ = MOD_INFO_REQ"
      "prev_mod_type_of ly_mod mods < MOD_INFO_REQ"
    and n: "mod_search ly_mod mods = Mod_absent \<or>
         (\<exists>i. mod_search ly_mod mods = Mod_found i \<and> mod_kind (mods ! i) < mod_typ)"
    and f: "sr_shmmain_find_module (conn_main_shm conn) (ly_name ly_mod) = Some shm_mod"
    and d: "inv_dep \<in> set (shm_inv_data_deps (conn_main_shm conn ! shm_mod))"
  shows "has_mod MOD_INFO_INV_DEP inv_dep mods'"
proof -
  from sr_modinfo_add_mod_run[OF run] show ?thesis
  proof (elim disjE conjE exE)
    assume "add_mod_entry conn ly_mod mod_typ mod_req_deps mods = Entry_return (Inr mods)"
    then show ?thesis using add_mod_entry_not_return n by blast
  next
    fix fuel' prev cur_i shm_mod' mods2 mods3
    assume e: "add_mod_entry conn ly_mod mod_typ mod_req_deps mods = Entry_present prev cur_i shm_mod' mods2"
      and i: "if mod_req_deps AND MOD_INFO_DEP = 0 \<or> mod_typ < MOD_INFO_INV_DEP \<or>
           mod_req_deps AND MOD_INFO_INV_DEP = 0 \<or> mod_typ < MOD_INFO_REQ \<or> \<not> prev < MOD_INFO_REQ
        then mods' = mods3
        else add_inv_data_deps (\<lambda>dep_mod. sr_modinfo_add_mod fuel' conn dep_mod MOD_INFO_INV_DEP mod_req_deps)
               (conn_ly_ctx conn) (shm_inv_data_deps (conn_main_shm conn ! shm_mod')) mods3 = Some (Inr mods')"
    have "shm_mod' = shm_mod" using add_mod_entry_present[OF e] f by simp
    moreover have "prev < MOD_INFO_REQ" using add_mod_entry_prev[OF e] c(3) by simp
    ultimately have "add_inv_data_deps (\<lambda>dep_mod. sr_modinfo_add_mod fuel' conn dep_mod MOD_INFO_INV_DEP mod_req_deps)
               (conn_ly_ctx conn) (shm_inv_data_deps (conn_main_shm conn ! shm_mod)) mods3 = Some (Inr mods')"
      using i c by (auto simp: MOD_INFO_REQ_def MOD_INFO_DEP_def MOD_INFO_INV_DEP_def split: if_splits)
    from add_inv_data_deps_present[of "\<lambda>dep_mod. sr_modinfo_add_mod fuel' conn dep_mod MOD_INFO_INV_DEP mod_req_deps"
        MOD_INFO_INV_DEP MOD_INFO_INV_DEP, OF sr_modinfo_add_mod_step this d]
    show ?thesis .
  qed
qed


text \<open>Dependencies of type instance-identifier play no part.\<close>

lemma sr_shmmain_find_module_map:
  assumes "\<And>d. shm_name (f d) = shm_name d"
  shows "sr_shmmain_find_module (map f shm) name = sr_shmmain_find_module shm name"
  by (induction shm) (auto simp: assms)

lemma find_module_drop_instid:
  "sr_shmmain_find_module (conn_main_shm (drop_instid conn)) name =
   sr_shmmain_find_module (conn_main_shm conn) name"
  by (simp add: drop_instid_def sr_shmmain_find_module_map)

lemma add_mod_entry_drop_instid:
  "add_mod_entry (drop_instid conn) ly_mod mod_typ mod_req_deps mods =
   add_mod_entry conn ly_mod mod_typ mod_req_deps mods"
proof -
  have r: "conn_realloc_ok (drop_instid conn) = conn_realloc_ok conn" by (simp add: drop_instid_def)
  show ?thesis unfolding add_mod_entry_def find_module_drop_instid r by (rule refl)
qed

lemma add_data_deps_filter:
  "add_data_deps add_dep ctx (filter (\<lambda>dep. dep_type dep \<noteq> SR_DEP_INSTID) deps) mods =
   add_data_deps add_dep ctx deps mods"
proof (induction deps arbitrary: mods)
  case Nil
  then show ?case by simp
next
  case (Cons dep deps)
  show ?case
  proof (cases "dep_type dep = SR_DEP_INSTID")
    case True
    then show ?thesis using Cons by simp
  next
    case False
    have "add_data_deps add_dep ctx (filter (\<lambda>dep. dep_type dep \<noteq> SR_DEP_INSTID) deps) =
          add_data_deps add_dep ctx deps"
      using Cons by (intro ext) simp
    then show ?thesis using False by (simp split: option.splits)
  qed
qed

lemma sr_modinfo_add_mod_drop_instid:
  "sr_modinfo_add_mod fuel (drop_instid conn) ly_mod mod_typ mod_req_deps mods =
   sr_modinfo_add_mod fuel conn ly_mod mod_typ mod_req_deps mods"
proof (induction fuel arbitrary: ly_mod mod_typ mods)
  case 0
  then show ?case by simp
next
  case (Suc fuel)
  have rec: "(\<lambda>dep_mod. sr_modinfo_add_mod fuel (drop_instid conn) dep_mod t mod_req_deps) =
             (\<lambda>dep_mod. sr_modinfo_add_mod fuel conn dep_mod t mod_req_deps)" for t
    using Suc.IH by (intro ext) simp
  have ctx: "conn_ly_ctx (drop_instid conn) = conn_ly_ctx conn" by (simp add: drop_instid_def)
  show ?case
  proof (cases "add_mod_entry conn ly_mod mod_typ mod_req_deps mods")
    case Entry_loops
    then show ?thesis by (simp add: add_mod_entry_drop_instid)
  next
    case (Entry_return r)
    then show ?thesis by (simp add: add_mod_entry_drop_instid)
  next
    case (Entry_present prev cur_i shm_mod mods2)
    have "sr_shmmain_find_module (conn_main_shm conn) (ly_name ly_mod) = Some shm_mod"
      using add_mod_entry_present[OF Entry_present] by simp
    then have lt: "shm_mod < length (conn_main_shm conn)"
      using sr_shmmain_find_module_Some by blast
    have dd: "shm_data_deps (conn_main_shm (drop_instid conn) ! shm_mod) =
          filter (\<lambda>dep. dep_type dep \<noteq> SR_DEP_INSTID) (shm_data_deps (conn_main_shm conn ! shm_mod))"
      and di: "shm_inv_data_deps (conn_main_shm (drop_instid conn) ! shm_mod) =
          shm_inv_data_deps (conn_main_shm conn ! shm_mod)"
      using lt by (simp_all add: drop_instid_def)
    show ?thesis
      using Entry_present
      by (simp add: add_mod_entry_drop_instid rec ctx dd di add_data_deps_filter cong: if_cong)
  qed
qed

text \<open>
  The rules that a successful call of \<^verbatim>\<open>sr_modinfo_add_mod\<close> follows, in terms of its own search. A module that
  has an entry of an equal or stronger kind leaves the array as it is. An entry of a weaker
  kind gets the new kind as its state, and a module without an entry gets a new entry of
  that kind at the end. When the dependencies are not requested or the new kind is below
  \<^verbatim>\<open>MOD_INFO_INV_DEP\<close>, no entry of another module is added or changed; when the inverse
  dependencies are not requested or the new kind is below \<^verbatim>\<open>MOD_INFO_REQ\<close>, every entry of
  another module that is added or changed has the state \<^verbatim>\<open>MOD_INFO_DEP\<close>, so none was added
  as an inverse dependency. When the module is added or upgraded with the dependencies
  requested, a new kind of at least \<^verbatim>\<open>MOD_INFO_INV_DEP\<close> and a previous state below it, every
  data dependency of its descriptor that is not of type \<^verbatim>\<open>SR_DEP_INSTID\<close> has an entry
  afterwards; with both kinds of dependencies requested, the kind \<^verbatim>\<open>MOD_INFO_REQ\<close> and a
  previous state below it, every inverse data dependency has an entry of kind
  \<^verbatim>\<open>MOD_INFO_INV_DEP\<close> or stronger. The dependencies of type \<^verbatim>\<open>SR_DEP_INSTID\<close> play no part:
  the call gives the same array on the connection with these dependencies removed.
\<close>

lemma sr_modinfo_add_mod_rules:
  assumes run: "sr_modinfo_add_mod fuel conn ly_mod mod_typ mod_req_deps mods = Some (Inr mods')"
  shows
    "(\<forall>i. mod_search ly_mod mods = Mod_found i \<and> mod_typ \<le> mod_kind (mods ! i) \<longrightarrow> mods' = mods) \<and>
     (\<forall>i. mod_search ly_mod mods = Mod_found i \<and> mod_kind (mods ! i) < mod_typ \<longrightarrow>
          i < length mods' \<and> mods' ! i = (mods ! i)\<lparr>mi_state := mod_typ\<rparr>) \<and>
     (mod_search ly_mod mods = Mod_absent \<longrightarrow>
          length mods < length mods' \<and> mi_ly_mod (mods' ! length mods) = ly_mod \<and>
          mi_state (mods' ! length mods) = mod_typ) \<and>
     (mod_req_deps AND MOD_INFO_DEP = 0 \<or> mod_typ < MOD_INFO_INV_DEP \<longrightarrow>
        (\<forall>j < length mods'. mi_ly_mod (mods' ! j) = ly_mod \<or> (j < length mods \<and> mods' ! j = mods ! j))) \<and>
     (mod_req_deps AND MOD_INFO_INV_DEP = 0 \<or> mod_typ < MOD_INFO_REQ \<longrightarrow>
        (\<forall>j < length mods'. mi_ly_mod (mods' ! j) = ly_mod \<or> (j < length mods \<and> mods' ! j = mods ! j) \<or>
           mi_state (mods' ! j) = MOD_INFO_DEP)) \<and>
     ((mod_search ly_mod mods = Mod_absent \<or>
        (\<exists>i. mod_search ly_mod mods = Mod_found i \<and> mod_kind (mods ! i) < mod_typ)) \<longrightarrow>
      (\<forall>shm_mod. sr_shmmain_find_module (conn_main_shm conn) (ly_name ly_mod) = Some shm_mod \<longrightarrow>
        (mod_req_deps AND MOD_INFO_DEP \<noteq> 0 \<and> MOD_INFO_INV_DEP \<le> mod_typ \<and>
         prev_mod_type_of ly_mod mods < MOD_INFO_INV_DEP \<longrightarrow>
           (\<forall>dep \<in> set (shm_data_deps (conn_main_shm conn ! shm_mod)).
              dep_type dep \<noteq> SR_DEP_INSTID \<longrightarrow> has_mod MOD_INFO_DEP (dep_module dep) mods')) \<and>
        (mod_req_deps = (MOD_INFO_DEP OR MOD_INFO_INV_DEP) \<and> mod_typ = MOD_INFO_REQ \<and>
         prev_mod_type_of ly_mod mods < MOD_INFO_REQ \<longrightarrow>
           (\<forall>inv_dep \<in> set (shm_inv_data_deps (conn_main_shm conn ! shm_mod)).
              has_mod MOD_INFO_INV_DEP inv_dep mods')))) \<and>
     sr_modinfo_add_mod fuel (drop_instid conn) ly_mod mod_typ mod_req_deps mods = Some (Inr mods')"
proof (intro conjI allI impI ballI)
  fix i assume "mod_search ly_mod mods = Mod_found i \<and> mod_typ \<le> mod_kind (mods ! i)"
  then show "mods' = mods" using sr_modinfo_add_mod_noop[OF run] by blast
next
  fix i assume a: "mod_search ly_mod mods = Mod_found i \<and> mod_kind (mods ! i) < mod_typ"
  then show "i < length mods'" using sr_modinfo_add_mod_upgrade[OF run] by blast
  from a show "mods' ! i = (mods ! i)\<lparr>mi_state := mod_typ\<rparr>"
    using sr_modinfo_add_mod_upgrade[OF run] by blast
next
  assume a: "mod_search ly_mod mods = Mod_absent"
  from sr_modinfo_add_mod_new[OF run a]
  show "length mods < length mods'" "mi_ly_mod (mods' ! length mods) = ly_mod"
    "mi_state (mods' ! length mods) = mod_typ" by simp_all
next
  fix j assume "mod_req_deps AND MOD_INFO_DEP = 0 \<or> mod_typ < MOD_INFO_INV_DEP" "j < length mods'"
  then show "mi_ly_mod (mods' ! j) = ly_mod \<or> (j < length mods \<and> mods' ! j = mods ! j)"
    using sr_modinfo_add_mod_no_deps[OF run] by blast
next
  fix j assume "mod_req_deps AND MOD_INFO_INV_DEP = 0 \<or> mod_typ < MOD_INFO_REQ" "j < length mods'"
  then show "mi_ly_mod (mods' ! j) = ly_mod \<or> (j < length mods \<and> mods' ! j = mods ! j) \<or>
           mi_state (mods' ! j) = MOD_INFO_DEP"
    using sr_modinfo_add_mod_no_inv_deps[OF run] by blast
next
  fix shm_mod dep
  assume n: "mod_search ly_mod mods = Mod_absent \<or>
        (\<exists>i. mod_search ly_mod mods = Mod_found i \<and> mod_kind (mods ! i) < mod_typ)"
    and f: "sr_shmmain_find_module (conn_main_shm conn) (ly_name ly_mod) = Some shm_mod"
    and c: "mod_req_deps AND MOD_INFO_DEP \<noteq> 0 \<and> MOD_INFO_INV_DEP \<le> mod_typ \<and>
         prev_mod_type_of ly_mod mods < MOD_INFO_INV_DEP"
    and d: "dep \<in> set (shm_data_deps (conn_main_shm conn ! shm_mod))" "dep_type dep \<noteq> SR_DEP_INSTID"
  show "has_mod MOD_INFO_DEP (dep_module dep) mods'"
    using sr_modinfo_add_mod_deps[OF run _ _ _ n f d] c by blast
next
  fix shm_mod inv_dep
  assume n: "mod_search ly_mod mods = Mod_absent \<or>
        (\<exists>i. mod_search ly_mod mods = Mod_found i \<and> mod_kind (mods ! i) < mod_typ)"
    and f: "sr_shmmain_find_module (conn_main_shm conn) (ly_name ly_mod) = Some shm_mod"
    and c: "mod_req_deps = (MOD_INFO_DEP OR MOD_INFO_INV_DEP) \<and> mod_typ = MOD_INFO_REQ \<and>
         prev_mod_type_of ly_mod mods < MOD_INFO_REQ"
    and d: "inv_dep \<in> set (shm_inv_data_deps (conn_main_shm conn ! shm_mod))"
  show "has_mod MOD_INFO_INV_DEP inv_dep mods'"
    using sr_modinfo_add_mod_inv_deps[OF run _ _ _ n f d] c by blast
next
  show "sr_modinfo_add_mod fuel (drop_instid conn) ly_mod mod_typ mod_req_deps mods = Some (Inr mods')"
    using run by (simp add: sr_modinfo_add_mod_drop_instid)
qed

lemma ex_add_mod_rules:
  "sr_modinfo_add_mod (Suc (Suc (Suc 0))) ex_conn (ex_ly ''ops'') MOD_INFO_REQ
     (MOD_INFO_DEP OR MOD_INFO_INV_DEP) [] =
     Some (Inr [ex_entry 1 MOD_INFO_REQ ''ops'', ex_entry 0 MOD_INFO_DEP ''ops-ref'']) \<and>
   mod_search (ex_ly ''ops'') [] = Mod_absent \<and>
   has_mod MOD_INFO_DEP ''ops-ref'' [ex_entry 1 MOD_INFO_REQ ''ops'', ex_entry 0 MOD_INFO_DEP ''ops-ref''] \<and>
   \<not> has_mod 0 ''other'' [ex_entry 1 MOD_INFO_REQ ''ops'', ex_entry 0 MOD_INFO_DEP ''ops-ref''] \<and>
   sr_modinfo_add_mod (Suc (Suc (Suc 0))) (drop_instid ex_conn) (ex_ly ''ops'') MOD_INFO_REQ
     (MOD_INFO_DEP OR MOD_INFO_INV_DEP) [] =
     Some (Inr [ex_entry 1 MOD_INFO_REQ ''ops'', ex_entry 0 MOD_INFO_DEP ''ops-ref''])"
proof -
  note c = sr_modinfo_add_mod_rules[OF ex_add_mod_ops]
  have a: "mod_search (ex_ly ''ops'') [] = Mod_absent" by (simp add: mod_search_def)
  have f: "sr_shmmain_find_module (conn_main_shm ex_conn) (ly_name (ex_ly ''ops'')) = Some 1"
    by (simp add: ex_defs)
  have p: "prev_mod_type_of (ex_ly ''ops'') [] < MOD_INFO_INV_DEP"
    by (simp add: prev_mod_type_of_def a MOD_INFO_INV_DEP_def)
  have d: "\<lparr>dep_type = SR_DEP_REF, dep_module = ''ops-ref'', dep_xpath = ''/ops:cont/ref''\<rparr>
       \<in> set (shm_data_deps (conn_main_shm ex_conn ! 1))"
    by (simp add: ex_defs)
  have "has_mod MOD_INFO_DEP ''ops-ref'' [ex_entry 1 MOD_INFO_REQ ''ops'', ex_entry 0 MOD_INFO_DEP ''ops-ref'']"
    using c a f p d by (auto simp: mod_info_defs)
  moreover have "\<not> has_mod 0 ''other'' [ex_entry 1 MOD_INFO_REQ ''ops'', ex_entry 0 MOD_INFO_DEP ''ops-ref'']"
    by (simp add: has_mod_def ex_defs)
  ultimately show ?thesis using c a ex_add_mod_ops by simp
qed

lemmas add_mod_defs = and_then_def add_mod_entry_def mod_search_def ly_ctx_get_module_implemented_def

lemma ex_chain_first_add:
  "sr_modinfo_add_mod (Suc (Suc 0)) ex_chain_conn (ex_ly ''routing'') MOD_INFO_REQ MOD_INFO_DEP [] =
     Some (Inr [ex_entry 2 MOD_INFO_REQ ''routing'', ex_entry 1 MOD_INFO_DEP ''interfaces''])"
  by (simp add: ex_chain_conn_def ex_defs mod_info_defs add_mod_defs)

lemma ex_chain_second_add:
  "sr_modinfo_add_mod (Suc (Suc 0)) ex_chain_conn (ex_ly ''interfaces'') MOD_INFO_REQ
     (MOD_INFO_DEP OR MOD_INFO_INV_DEP)
     [ex_entry 1 (MOD_INFO_DEP OR MOD_INFO_DATA) ''interfaces'',
      ex_entry 2 (MOD_INFO_REQ OR MOD_INFO_DATA) ''routing''] =
   Some (Inr [ex_entry 1 MOD_INFO_REQ ''interfaces'',
              ex_entry 2 (MOD_INFO_REQ OR MOD_INFO_DATA) ''routing''])"
  by (simp add: ex_chain_conn_def ex_defs mod_info_defs add_mod_defs)

lemma ex_chain_second_add_unflagged:
  "sr_modinfo_add_mod (Suc (Suc 0)) ex_chain_conn (ex_ly ''interfaces'') MOD_INFO_REQ
     (MOD_INFO_DEP OR MOD_INFO_INV_DEP)
     [ex_entry 1 MOD_INFO_DEP ''interfaces'', ex_entry 2 MOD_INFO_REQ ''routing''] =
   Some (Inr [ex_entry 1 MOD_INFO_REQ ''interfaces'', ex_entry 2 MOD_INFO_REQ ''routing'',
              ex_entry 0 MOD_INFO_DEP ''hardware''])"
  by (simp add: ex_chain_conn_def ex_defs mod_info_defs add_mod_defs)

text \<open>
  C5. The closure rules of the claim are what \<^verbatim>\<open>sr_modinfo_add_mod\<close> is written for, but it
  does not follow them for an entry that carries a flag. On the upgrade of an entry the
  function keeps the whole previous state in \<^verbatim>\<open>prev_mod_type\<close>, flags included, and compares
  it with the kinds; with \<^verbatim>\<open>MOD_INFO_DATA\<close> in it the value is above every kind, so no
  dependency is followed, and the new state is the bare kind, so the flag is lost.

  Two calls of \<^verbatim>\<open>sr_modinfo_add_modules\<close> on one mod info show it. The first one asks for
  \<open>routing\<close> with its data dependencies: \<open>routing\<close> gets an entry of kind \<^verbatim>\<open>MOD_INFO_REQ\<close> and
  \<open>interfaces\<close> one of kind \<^verbatim>\<open>MOD_INFO_DEP\<close>, and loading their data gives both
  \<^verbatim>\<open>MOD_INFO_DATA\<close>. The second one asks for \<open>interfaces\<close> with both kinds of dependencies:
  the entry of \<open>interfaces\<close> is upgraded to \<^verbatim>\<open>MOD_INFO_REQ\<close>, without the flag, and nothing
  else happens; \<open>hardware\<close>, the data dependency of \<open>interfaces\<close>, gets no entry. The same
  call of \<^verbatim>\<open>sr_modinfo_add_mod\<close> on the same entries without the flags does add \<open>hardware\<close>
  as \<^verbatim>\<open>MOD_INFO_DEP\<close>.
\<close>

theorem sr_modinfo_add_mod_flagged_upgrade:
  "sr_modinfo_add_modules_resolve (Suc (Suc 0)) ex_chain_conn ex_perm_env ex_mod_info
     [ex_ly ''routing''] MOD_INFO_DEP ex_mi_opts =
     Some (Inr (ex_mod_info\<lparr>mi_mods :=
       [ex_entry 1 MOD_INFO_DEP ''interfaces'', ex_entry 2 MOD_INFO_REQ ''routing'']\<rparr>)) \<and>
   sr_modinfo_data_load_mods (\<lambda>m. None)
     [ex_entry 1 MOD_INFO_DEP ''interfaces'', ex_entry 2 MOD_INFO_REQ ''routing''] =
     (None, [ex_entry 1 (MOD_INFO_DEP OR MOD_INFO_DATA) ''interfaces'',
             ex_entry 2 (MOD_INFO_REQ OR MOD_INFO_DATA) ''routing'']) \<and>
   sr_modinfo_add_modules_resolve (Suc (Suc 0)) ex_chain_conn ex_perm_env
     (ex_mod_info\<lparr>mi_mods :=
        [ex_entry 1 (MOD_INFO_DEP OR MOD_INFO_DATA) ''interfaces'',
         ex_entry 2 (MOD_INFO_REQ OR MOD_INFO_DATA) ''routing'']\<rparr>)
     [ex_ly ''interfaces''] (MOD_INFO_DEP OR MOD_INFO_INV_DEP) ex_mi_opts =
     Some (Inr (ex_mod_info\<lparr>mi_mods :=
       [ex_entry 1 MOD_INFO_REQ ''interfaces'',
        ex_entry 2 (MOD_INFO_REQ OR MOD_INFO_DATA) ''routing'']\<rparr>)) \<and>
   sr_modinfo_add_mod (Suc (Suc 0)) ex_chain_conn (ex_ly ''interfaces'') MOD_INFO_REQ
     (MOD_INFO_DEP OR MOD_INFO_INV_DEP)
     [ex_entry 1 (MOD_INFO_DEP OR MOD_INFO_DATA) ''interfaces'',
      ex_entry 2 (MOD_INFO_REQ OR MOD_INFO_DATA) ''routing''] =
     Some (Inr [ex_entry 1 MOD_INFO_REQ ''interfaces'',
                ex_entry 2 (MOD_INFO_REQ OR MOD_INFO_DATA) ''routing'']) \<and>
   sr_modinfo_add_mod (Suc (Suc 0)) ex_chain_conn (ex_ly ''interfaces'') MOD_INFO_REQ
     (MOD_INFO_DEP OR MOD_INFO_INV_DEP)
     [ex_entry 1 MOD_INFO_DEP ''interfaces'', ex_entry 2 MOD_INFO_REQ ''routing''] =
     Some (Inr [ex_entry 1 MOD_INFO_REQ ''interfaces'', ex_entry 2 MOD_INFO_REQ ''routing'',
                ex_entry 0 MOD_INFO_DEP ''hardware''])"
proof -
  have first: "sr_modinfo_add_modules_resolve (Suc (Suc 0)) ex_chain_conn ex_perm_env ex_mod_info
     [ex_ly ''routing''] MOD_INFO_DEP ex_mi_opts =
     Some (Inr (ex_mod_info\<lparr>mi_mods :=
       [ex_entry 1 MOD_INFO_DEP ''interfaces'', ex_entry 2 MOD_INFO_REQ ''routing'']\<rparr>))"
    unfolding sr_modinfo_add_modules_resolve_def
    by (simp add: ex_mod_info_def ex_chain_first_add and_then_def Let_def ex_mi_opts_def qsort_def
        sr_modinfo_qsort_cmp_def ex_entry_def del: sr_modinfo_add_mod.simps)
  have load: "sr_modinfo_data_load_mods (\<lambda>m. None)
     [ex_entry 1 MOD_INFO_DEP ''interfaces'', ex_entry 2 MOD_INFO_REQ ''routing''] =
     (None, [ex_entry 1 (MOD_INFO_DEP OR MOD_INFO_DATA) ''interfaces'',
             ex_entry 2 (MOD_INFO_REQ OR MOD_INFO_DATA) ''routing''])"
    by (simp add: ex_entry_def mod_info_defs)
  have second: "sr_modinfo_add_modules_resolve (Suc (Suc 0)) ex_chain_conn ex_perm_env
     (ex_mod_info\<lparr>mi_mods :=
        [ex_entry 1 (MOD_INFO_DEP OR MOD_INFO_DATA) ''interfaces'',
         ex_entry 2 (MOD_INFO_REQ OR MOD_INFO_DATA) ''routing'']\<rparr>)
     [ex_ly ''interfaces''] (MOD_INFO_DEP OR MOD_INFO_INV_DEP) ex_mi_opts =
     Some (Inr (ex_mod_info\<lparr>mi_mods :=
       [ex_entry 1 MOD_INFO_REQ ''interfaces'',
        ex_entry 2 (MOD_INFO_REQ OR MOD_INFO_DATA) ''routing'']\<rparr>))"
    unfolding sr_modinfo_add_modules_resolve_def
    by (simp add: ex_mod_info_def ex_chain_second_add and_then_def Let_def ex_mi_opts_def
        del: sr_modinfo_add_mod.simps One_nat_def)
  show ?thesis
    using first load second ex_chain_second_add ex_chain_second_add_unflagged by blast
qed

subsection \<open>Writing the datastore files: \<^verbatim>\<open>sr_modinfo_data_store\<close>\<close>

lemma emit_simps [simp]:
  "w_events (emit es w) = w_events w @ es" "w_shm (emit es w) = w_shm w"
  "w_files (emit es w) = w_files w" "w_cache (emit es w) = w_cache w"
  by (simp_all add: emit_def)


















lemma ver_incs_file_set [simp]: "ver_incs (Ev_file_set name ds r # evs) = ver_incs evs"
  by simp








lemma bump_ver_length [simp]: "length (bump_ver j shm) = length shm"
  by (simp add: bump_ver_def)


lemma foldl_bump_ver_length [simp]: "length (foldl (\<lambda>s k. bump_ver k s) shm ks) = length shm"
  by (induction ks arbitrary: shm) simp_all




lemmas store_defs = sr_modinfo_data_store_def data_store_mod_def data_store_oper_def
  data_store_oper_diff_def sr_module_file_data_set_def sr_module_file_data_append_def
  file_data_open_parse_def
  sr_module_data_unlink_def sr_modcache_module_running_update_def cache_append_current_def
  cache_error_rlock_def emit_def

lemmas ex_store_defs = ex_path_def ex_sys_env_def ex_old_data_def ex_new_data_def ex_oper_diff_def
  ex_world_def ex_store_mod_info_def

lemma ex_store_run_result:
  "fst (ex_store_run ver) = None"
  "w_events (snd (snd (ex_store_run ver))) =
     [Ev_file_set ''ops'' SR_DS_RUNNING None, Ev_ver_inc ''ops'' 1,
      Ev_lock SR_LOCK_WRITE None, Ev_add_item (ex_ly ''ops''), Ev_set_ver 0 0,
      Ev_install (ex_ly ''ops'') ex_new_data, Ev_set_ver 0 (ver + 1), Ev_unlock SR_LOCK_WRITE,
      Ev_file_set ''ops'' SR_DS_OPERATIONAL None]"
  "map shm_ver (w_shm (snd (snd (ex_store_run ver)))) = [1, ver + 1, 1]"
  "w_files (snd (snd (ex_store_run ver))) (ex_path ''ops'' SR_DS_RUNNING) =
     Some (File_data ex_new_data)"
  unfolding ex_store_run_def
  by (simp_all add: store_defs ex_store_defs ex_defs mod_info_defs Let_def)



text \<open>
  The increment wraps: from \<^verbatim>\<open>ver\<close> \<open>= 2\<^sup>3\<^sup>2 - 1\<close> a successful running write leads to \<open>0\<close>.
\<close>

lemma sr_modinfo_data_store_ver_wraps:
  "shm_ver (w_shm (ex_world (- 1)) ! 1) = 4294967295 \<and>
   fst (ex_store_run (- 1)) = None \<and>
   running_writes (w_events (snd (snd (ex_store_run (- 1))))) = [''ops''] \<and>
   shm_ver (w_shm (snd (snd (ex_store_run (- 1)))) ! 1) = 0"
proof -
  have "shm_ver (w_shm (snd (snd (ex_store_run (- 1)))) ! 1) =
      map shm_ver (w_shm (snd (snd (ex_store_run (- 1))))) ! 1"
    by (subst nth_map) (simp_all add: ex_store_run_def store_defs ex_store_defs ex_defs Let_def mod_info_defs)
  then show ?thesis
    by (simp add: ex_store_run_result) (simp add: ex_world_def ex_defs)
qed

subsection \<open>The cache of running data: \<^verbatim>\<open>sr_modcache_module_running_update\<close>\<close>






lemma map_mc_ly_mod_update [simp]:
  "map mc_ly_mod (xs[i := (xs ! i)\<lparr>mc_ver := v\<rparr>]) = map mc_ly_mod xs"
proof (induction xs arbitrary: i)
  case Nil
  show ?case by simp
next
  case (Cons x xs)
  then show ?case by (cases i) simp_all
qed



text \<open>A cached version above the \<^verbatim>\<open>ver\<close> of the descriptor fails the assertion of the function.\<close>

lemma sr_modcache_module_running_update_assert:
  assumes "i = first_cache_mod (mi_ly_mod mod1) (mc_mods (w_cache w))"
      "i < length (mc_mods (w_cache w))"
    and "shm_ver (w_shm w ! mi_shm_mod mod1) < mc_ver (mc_mods (w_cache w) ! i)"
  shows "sr_modcache_module_running_update env mod1 upd_mod_data read_locked w =
     (Some Assert_failed, w)"
proof -
  have "\<not> mc_ver (mc_mods (w_cache w) ! i) \<le> shm_ver (w_shm w ! mi_shm_mod mod1)"
    using assms(3) by (simp add: not_le)
  then show ?thesis
    using assms(1,2) by (simp add: sr_modcache_module_running_update_def Let_def)
qed



subsection \<open>The config-change notification\<close>


lemma op_enum_range:
  "op_enum op = Some s \<Longrightarrow> s \<in> {''create'', ''replace'', ''delete'', ''merge''}"
  by (cases op) auto


lemma notif_find_subscriber_active:
  "sr_shmmain_find_module (conn_main_shm conn) mod_name = Some shm_mod \<Longrightarrow>
   sr_notif_find_subscriber conn mod_name =
     Inr (shm_notif_subs (conn_main_shm conn ! shm_mod), active_notif_subs conn mod_name)"
  by (simp add: sr_notif_find_subscriber_def active_notif_subs_def)


text \<open>
  C10. When the diff of the mod info has a node with an effective operation, the
  notification module \<open>ietf-netconf-notifications\<close> has no replay support and none of its
  notification subscriptions is active (not suspended),
  \<^verbatim>\<open>sr_modinfo_generate_config_change_notif\<close> returns success and none of the calls that build,
  store or deliver a notification is made. This holds for every datastore, the conventional
  ones among them, and whatever libyang and the other functions would answer.
\<close>

theorem sr_modinfo_generate_config_change_notif_nothing_to_do:
  assumes "has_changes (mi_diff mod_info)"
    and "sr_shmmain_find_module (conn_main_shm conn) ''ietf-netconf-notifications'' = Some shm_mod"
    and "shm_flags (conn_main_shm conn ! shm_mod) AND SR_MOD_REPLAY_SUPPORT = 0"
    and "active_notif_subs conn ''ietf-netconf-notifications'' = 0"
  shows "sr_modinfo_generate_config_change_notif env conn mod_info session = (None, [])"
  using assms
  by (simp add: sr_modinfo_generate_config_change_notif_def notif_find_subscriber_active)



lemmas ex_notif_defs = ex_notif_conn_def ex_notif_sub_def ex_diff_def ex_notif_mod_info_def
  ex_session_def ex_notif_env_def ex_mod_info_def ex_shm_mod_def ex_ly_def

lemma ex_notif_facts:
  "has_changes (mi_diff ex_notif_mod_info)"
  "mi_ds ex_notif_mod_info = SR_DS_RUNNING"
  "sr_shmmain_find_module (conn_main_shm (ex_notif_conn flags subs)) ''ietf-netconf-notifications'' =
     Some 0"
  "shm_flags (conn_main_shm (ex_notif_conn flags subs) ! 0) = flags"
  "shm_notif_subs (conn_main_shm (ex_notif_conn flags subs) ! 0) = subs"
  "active_notif_subs (ex_notif_conn flags subs) ''ietf-netconf-notifications'' =
     length (filter (\<lambda>s. \<not> nsub_suspended s) subs)"
  "set_changes ex_notif_env (diff_nodes (mi_diff ex_notif_mod_info)) =
     [(Lyd_node ''ops'' ''leaf'' EDIT_REPLACE [], SR_OP_MODIFIED)]"
  "notif_builds ex_notif_env (diff_nodes (mi_diff ex_notif_mod_info))"
  by (simp_all add: has_changes_def diff_nodes_def ex_notif_defs active_notif_subs_def
        notif_builds_def)

theorem sr_modinfo_generate_config_change_notif_nothing_to_do_witness:
  "has_changes (mi_diff ex_notif_mod_info) \<and>
   mi_ds ex_notif_mod_info = SR_DS_RUNNING \<and>
   sr_shmmain_find_module (conn_main_shm (ex_notif_conn 0 [ex_notif_sub True]))
     ''ietf-netconf-notifications'' = Some 0 \<and>
   shm_flags (conn_main_shm (ex_notif_conn 0 [ex_notif_sub True]) ! 0) AND SR_MOD_REPLAY_SUPPORT = 0 \<and>
   active_notif_subs (ex_notif_conn 0 [ex_notif_sub True]) ''ietf-netconf-notifications'' = 0 \<and>
   sr_modinfo_generate_config_change_notif ex_notif_env (ex_notif_conn 0 [ex_notif_sub True])
     ex_notif_mod_info ex_session = (None, [])"
proof -
  have rp: "shm_flags (conn_main_shm (ex_notif_conn 0 [ex_notif_sub True]) ! 0)
      AND SR_MOD_REPLAY_SUPPORT = 0"
    by (simp add: ex_notif_facts)
  have subs: "active_notif_subs (ex_notif_conn 0 [ex_notif_sub True])
      ''ietf-netconf-notifications'' = 0"
    by (simp add: ex_notif_facts ex_notif_sub_def)
  from sr_modinfo_generate_config_change_notif_nothing_to_do[OF ex_notif_facts(1)
      ex_notif_facts(3) rp subs]
  show ?thesis
    using ex_notif_facts(1,2,3) rp subs by blast
qed



subsection \<open>Operational data of a module\<close>

lemma oper_new_events_append:
  "os_events st' = os_events st @ es \<Longrightarrow> oper_new_events st st' = es"
  by (simp add: oper_new_events_def)

















end
